theory Spec2Isabelle
  imports Main "HOL-Library.AList"
begin

section \<open>The adjacency-map graph of grafo.py\<close>

text \<open>
  The module defines one class, \<open>Grafo\<close>, with two inner classes \<open>Vertice\<close> and
  \<open>Aresta\<close>. A graph owns two attributes, \<open>_saida\<close> and \<open>_entrada\<close>, each a reference to
  a dict from vertices to dicts from vertices to edges. For a graph without direction the
  two attributes refer to the very same dict object, so the model keeps an explicit store:
  every object has an identity (a natural number handed out by a counter), and the dicts
  the graph refers to live in a store indexed by identity.

  Neither inner class defines \<open>__eq__\<close>, so Python compares vertices and edges by object
  identity; in the model a vertex or an edge is therefore its reference, and its fields
  are read from the store.
\<close>

subsection \<open>Objects and references\<close>

type_synonym ref = nat

datatype error = KeyError

text \<open>\<open>Vertice.__init__\<close>: the slots \<open>_elemento\<close> and \<open>_visitado\<close>.\<close>

record 'a Vertice =
  v_elemento :: 'a
  v_visitado :: bool

definition Vertice_init :: "'a \<Rightarrow> 'a Vertice" where
  "Vertice_init e = \<lparr>v_elemento = e, v_visitado = False\<rparr>"

definition elemento :: "'a Vertice \<Rightarrow> 'a" where
  "elemento self = v_elemento self"

text \<open>\<open>Aresta.__init__\<close>: the slots \<open>_origem\<close>, \<open>_destino\<close> (references to vertices) and
  \<open>_peso\<close>.\<close>

record 'b Aresta =
  a_origem :: ref
  a_destino :: ref
  a_peso :: 'b

definition Aresta_init :: "ref \<Rightarrow> ref \<Rightarrow> 'b \<Rightarrow> 'b Aresta" where
  "Aresta_init origem destino peso = \<lparr>a_origem = origem, a_destino = destino, a_peso = peso\<rparr>"

definition Aresta_vertices :: "'b Aresta \<Rightarrow> ref \<times> ref" where
  "Aresta_vertices self = (a_origem self, a_destino self)"

text \<open>\<open>oposto\<close>: \<open>self._destino if v is self._origem else self._origem\<close>; \<open>is\<close> on two
  vertices is equality of their references.\<close>

definition oposto :: "'b Aresta \<Rightarrow> ref \<Rightarrow> ref" where
  "oposto self v = (if v = a_origem self then a_destino self else a_origem self)"

definition peso :: "'b Aresta \<Rightarrow> 'b" where
  "peso self = a_peso self"

text \<open>
  The two \<open>__hash__\<close> methods call the builtin \<open>hash\<close>, which is not code of the module:
  \<open>hi\<close> stands for \<open>hash\<close> on the integer \<open>id(self)\<close> and \<open>ht\<close> for the hash of a tuple,
  which Python computes from the hashes of its components. A vertex's \<open>id\<close> is its
  reference.
\<close>

definition Vertice_hash :: "(ref \<Rightarrow> int) \<Rightarrow> ref \<Rightarrow> int" where
  "Vertice_hash hi self = hi self"

definition Aresta_hash :: "(ref \<Rightarrow> int) \<Rightarrow> (int list \<Rightarrow> int) \<Rightarrow> 'b Aresta \<Rightarrow> int" where
  "Aresta_hash hi ht self = ht [Vertice_hash hi (a_origem self), Vertice_hash hi (a_destino self)]"

text \<open>The class \<open>Aresta\<close> has no \<open>__eq__\<close>: \<open>a == b\<close> falls back to \<open>object.__eq__\<close>,
  which is \<open>a is b\<close>.\<close>

definition Aresta_eq :: "ref \<Rightarrow> ref \<Rightarrow> bool" where
  "Aresta_eq a b = (a = b)"

subsection \<open>Python dicts and sets\<close>

text \<open>
  A dict is an association list in insertion order with distinct keys. \<open>d[k] = v\<close>
  replaces the value of an existing key in place and appends a new key at the end;
  \<open>d[k]\<close> raises \<open>KeyError\<close> on a missing key, \<open>d.get(k)\<close> returns \<open>None\<close> there.
\<close>

type_synonym ('k, 'v) dict = "('k \<times> 'v) list"

definition dict_setitem :: "('k, 'v) dict \<Rightarrow> 'k \<Rightarrow> 'v \<Rightarrow> ('k, 'v) dict" where
  "dict_setitem d k v = AList.update k v d"

definition dict_getitem :: "('k, 'v) dict \<Rightarrow> 'k \<Rightarrow> error + 'v" where
  "dict_getitem d k = (case map_of d k of None \<Rightarrow> Inl KeyError | Some v \<Rightarrow> Inr v)"

definition dict_get :: "('k, 'v) dict \<Rightarrow> 'k \<Rightarrow> 'v option" where
  "dict_get d k = map_of d k"

definition dict_keys :: "('k, 'v) dict \<Rightarrow> 'k list" where
  "dict_keys d = map fst d"

definition dict_values :: "('k, 'v) dict \<Rightarrow> 'v list" where
  "dict_values d = map snd d"

text \<open>
  A set of edges, in insertion order. \<open>add\<close> leaves the set alone when it already holds
  an element with the same hash that is the same object or compares equal, and adds the
  element otherwise; \<open>update\<close> adds the elements of an iterable one by one. The first
  argument gives the hash of an element.
\<close>

definition set_add :: "(ref \<Rightarrow> 'h) \<Rightarrow> ref \<Rightarrow> ref list \<Rightarrow> ref list" where
  "set_add h x xs =
     (if \<exists>y \<in> set xs. h y = h x \<and> (y = x \<or> Aresta_eq y x) then xs else xs @ [x])"

definition set_update :: "(ref \<Rightarrow> 'h) \<Rightarrow> ref list \<Rightarrow> ref list \<Rightarrow> ref list" where
  "set_update h ys xs = fold (set_add h) ys xs"

subsection \<open>The graph and the store\<close>

text \<open>
  The inner dict of a vertex is created by a \<open>{}\<close> literal in \<open>inserir_vertice\<close>, stored in
  one slot of one outer dict and never handed out, so it has no alias and is kept by
  value inside the outer dict. The outer dicts are kept by reference.

  \<open>g_saida\<close> and \<open>g_entrada\<close> are the attributes \<open>_saida\<close> and \<open>_entrada\<close> of the graph;
  \<open>prox\<close> is the identity the next new object gets; \<open>vertice_em\<close>, \<open>aresta_em\<close> and
  \<open>mapa_em\<close> are the store of vertex objects, edge objects and outer dicts.
\<close>

type_synonym mapa_secundario = "(ref, ref) dict"

type_synonym mapa = "(ref, mapa_secundario) dict"

record ('a, 'b) Grafo =
  g_saida :: ref
  g_entrada :: ref
  prox :: ref
  vertice_em :: "ref \<Rightarrow> 'a Vertice option"
  aresta_em :: "ref \<Rightarrow> 'b Aresta option"
  mapa_em :: "ref \<Rightarrow> mapa"

text \<open>\<open>{}\<close>: a new, empty outer dict.\<close>

definition novo_mapa :: "('a, 'b) Grafo \<Rightarrow> ref \<times> ('a, 'b) Grafo" where
  "novo_mapa s = (prox s, s\<lparr>prox := Suc (prox s), mapa_em := (mapa_em s)(prox s := [])\<rparr>)"

text \<open>\<open>Grafo.__init__\<close>, in an empty store: \<open>_saida\<close> is a new dict, \<open>_entrada\<close> a second
  new dict for a directed graph and an alias of \<open>_saida\<close> otherwise. \<open>Grafo()\<close> without an
  argument is \<open>Grafo_init False\<close>.\<close>

definition Grafo_init :: "bool \<Rightarrow> ('a, 'b) Grafo" where
  "Grafo_init direcionado =
     (let s0 = \<lparr>g_saida = 0, g_entrada = 0, prox = 0, vertice_em = (\<lambda>_. None),
                aresta_em = (\<lambda>_. None), mapa_em = (\<lambda>_. [])\<rparr>;
          (m, s1) = novo_mapa s0;
          s2 = s1\<lparr>g_saida := m\<rparr>
      in if direcionado
         then (let (m', s3) = novo_mapa s2 in s3\<lparr>g_entrada := m'\<rparr>)
         else s2\<lparr>g_entrada := g_saida s2\<rparr>)"

definition e_direcionado :: "('a, 'b) Grafo \<Rightarrow> bool" where
  "e_direcionado self = (g_entrada self \<noteq> g_saida self)"

definition num_vertices :: "('a, 'b) Grafo \<Rightarrow> nat" where
  "num_vertices self = length (mapa_em self (g_saida self))"

definition vertices :: "('a, 'b) Grafo \<Rightarrow> ref list" where
  "vertices self = dict_keys (mapa_em self (g_saida self))"

text \<open>\<open>num_arestas\<close>: the generator indexes \<open>_saida\<close> with each of its own keys, which
  visits every entry of the dict once and cannot raise.\<close>

definition num_arestas :: "('a, 'b) Grafo \<Rightarrow> nat" where
  "num_arestas self =
     (let total = sum_list (map (\<lambda>(v, map_secundario). length map_secundario)
                              (mapa_em self (g_saida self)))
      in if e_direcionado self then total else total div 2)"

text \<open>\<open>arestas\<close>: the hash of an edge is the \<open>__hash__\<close> of the object the reference
  points to.\<close>

definition hash_em :: "(ref \<Rightarrow> int) \<Rightarrow> (int list \<Rightarrow> int) \<Rightarrow> ('a, 'b) Grafo \<Rightarrow> ref \<Rightarrow> int option" where
  "hash_em hi ht self a = map_option (Aresta_hash hi ht) (aresta_em self a)"

definition arestas :: "(ref \<Rightarrow> int) \<Rightarrow> (int list \<Rightarrow> int) \<Rightarrow> ('a, 'b) Grafo \<Rightarrow> ref list" where
  "arestas hi ht self =
     fold (\<lambda>map_secundario resultado.
             set_update (hash_em hi ht self) (dict_values map_secundario) resultado)
          (dict_values (mapa_em self (g_saida self))) []"

definition aresta :: "('a, 'b) Grafo \<Rightarrow> ref \<Rightarrow> ref \<Rightarrow> error + ref option" where
  "aresta self u v =
     (case dict_getitem (mapa_em self (g_saida self)) u of
        Inl e \<Rightarrow> Inl e
      | Inr map_secundario \<Rightarrow> Inr (dict_get map_secundario v))"

definition grau :: "('a, 'b) Grafo \<Rightarrow> ref \<Rightarrow> bool \<Rightarrow> error + nat" where
  "grau self v saida =
     (let adj = (if saida then g_saida self else g_entrada self)
      in case dict_getitem (mapa_em self adj) v of
           Inl e \<Rightarrow> Inl e
         | Inr map_secundario \<Rightarrow> Inr (length map_secundario))"

definition arestas_incidentes :: "('a, 'b) Grafo \<Rightarrow> ref \<Rightarrow> bool \<Rightarrow> error + ref list" where
  "arestas_incidentes self v saida =
     (let adj = (if saida then g_saida self else g_entrada self)
      in case dict_getitem (mapa_em self adj) v of
           Inl e \<Rightarrow> Inl e
         | Inr map_secundario \<Rightarrow> Inr (dict_values map_secundario))"

text \<open>\<open>m[v] = {}\<close> on the outer dict at reference \<open>m\<close>.\<close>

definition registrar :: "ref \<Rightarrow> ref \<Rightarrow> ('a, 'b) Grafo \<Rightarrow> ('a, 'b) Grafo" where
  "registrar m v s = s\<lparr>mapa_em := (mapa_em s)(m := dict_setitem (mapa_em s m) v [])\<rparr>"

text \<open>\<open>self.Vertice(x)\<close>: a new vertex object. The constructor can also be called on its
  own (the docstring asks callers not to), which gives a vertex that belongs to no
  graph. The default \<open>x=None\<close> of \<open>inserir_vertice\<close> and \<open>inserir_aresta\<close> is a value of the
  payload type like any other; the example of the module uses an option type for it.\<close>

definition criar_vertice :: "('a, 'b) Grafo \<Rightarrow> 'a \<Rightarrow> ref \<times> ('a, 'b) Grafo" where
  "criar_vertice s x =
     (prox s, s\<lparr>prox := Suc (prox s), vertice_em := (vertice_em s)(prox s \<mapsto> Vertice_init x)\<rparr>)"

definition inserir_vertice :: "('a, 'b) Grafo \<Rightarrow> 'a \<Rightarrow> ref \<times> ('a, 'b) Grafo" where
  "inserir_vertice self x =
     (let (v, s1) = criar_vertice self x;
          s2 = registrar (g_saida s1) v s1;
          s3 = (if e_direcionado s2 then registrar (g_entrada s2) v s2 else s2)
      in (v, s3))"

text \<open>\<open>m[u][v] = a\<close> on the outer dict at reference \<open>m\<close>: \<open>m[u]\<close> raises \<open>KeyError\<close> when
  \<open>u\<close> is not a key, otherwise the inner dict found there is updated.\<close>

definition gravar :: "ref \<Rightarrow> ref \<Rightarrow> ref \<Rightarrow> ref \<Rightarrow> ('a, 'b) Grafo \<Rightarrow> error + ('a, 'b) Grafo" where
  "gravar m u v a s =
     (case dict_getitem (mapa_em s m) u of
        Inl e \<Rightarrow> Inl e
      | Inr map_secundario \<Rightarrow>
          Inr (s\<lparr>mapa_em := (mapa_em s)(m := dict_setitem (mapa_em s m) u
                                               (dict_setitem map_secundario v a))\<rparr>))"

text \<open>\<open>self.Aresta(u, v, x)\<close>: a new edge object.\<close>

definition criar_aresta :: "('a, 'b) Grafo \<Rightarrow> ref \<Rightarrow> ref \<Rightarrow> 'b \<Rightarrow> ref \<times> ('a, 'b) Grafo" where
  "criar_aresta s u v x =
     (prox s, s\<lparr>prox := Suc (prox s), aresta_em := (aresta_em s)(prox s \<mapsto> Aresta_init u v x)\<rparr>)"

text \<open>\<open>inserir_aresta\<close> returns the edge or raises; either way the store it leaves is
  the second component, so what an interrupted call has already written stays
  written.\<close>

definition inserir_aresta ::
  "('a, 'b) Grafo \<Rightarrow> ref \<Rightarrow> ref \<Rightarrow> 'b \<Rightarrow> (error + ref) \<times> ('a, 'b) Grafo" where
  "inserir_aresta self u v x =
     (let (a, s1) = criar_aresta self u v x
      in case gravar (g_saida s1) u v a s1 of
           Inl e \<Rightarrow> (Inl e, s1)
         | Inr s2 \<Rightarrow>
             (case gravar (g_entrada s2) v u a s2 of
                Inl e \<Rightarrow> (Inl e, s2)
              | Inr s3 \<Rightarrow> (Inr a, s3)))"

subsection \<open>Graphs built by calls\<close>

text \<open>A graph is built by the constructor followed by calls of the two mutators, in
  between which vertices may be created outside the graph; a call that raises still
  leaves its store behind.\<close>

datatype ('a, 'b) chamada = InserirVertice 'a | InserirAresta ref ref 'b | CriarVertice 'a

fun executar :: "('a, 'b) Grafo \<Rightarrow> ('a, 'b) chamada \<Rightarrow> ('a, 'b) Grafo" where
  "executar s (InserirVertice x) = snd (inserir_vertice s x)"
| "executar s (InserirAresta u v x) = snd (inserir_aresta s u v x)"
| "executar s (CriarVertice x) = snd (criar_vertice s x)"

definition construido :: "bool \<Rightarrow> ('a, 'b) chamada list \<Rightarrow> ('a, 'b) Grafo" where
  "construido direcionado cs = foldl executar (Grafo_init direcionado) cs"

text \<open>The script at the end of the module: a graph without direction, six vertices, four
  edges with the default payload \<open>None\<close>. The result keeps the graph, the six vertices
  and what the four \<open>inserir_aresta\<close> calls returned.\<close>

definition grafo_exemplo ::
  "(string, 'b option) Grafo \<times> (ref \<times> ref \<times> ref \<times> ref \<times> ref \<times> ref) \<times> (error + ref) list" where
  "grafo_exemplo =
     (let g = Grafo_init False;
          (v1, g) = inserir_vertice g ''a'';
          (v2, g) = inserir_vertice g ''b'';
          (v3, g) = inserir_vertice g ''c'';
          (v4, g) = inserir_vertice g ''d'';
          (v5, g) = inserir_vertice g ''e'';
          (v6, g) = inserir_vertice g ''f'';
          (a1, g) = inserir_aresta g v1 v2 None;
          (a2, g) = inserir_aresta g v1 v3 None;
          (a3, g) = inserir_aresta g v3 v4 None;
          (a4, g) = inserir_aresta g v2 v4 None
      in (g, (v1, v2, v3, v4, v5, v6), [a1, a2, a3, a4]))"

text \<open>Small graphs used to exercise the theorems: two vertices \<open>a\<close> and \<open>b\<close> inserted in
  a new graph, and a third vertex \<open>c\<close> created outside it.\<close>

definition grafo_ab :: "bool \<Rightarrow> (string, string) Grafo" where
  "grafo_ab direcionado =
     construido direcionado [InserirVertice ''a'', InserirVertice ''b'', CriarVertice ''c'']"

subsection \<open>Views of the adjacency dicts\<close>

text \<open>\<open>celula m u v\<close> is what \<open>m[u].get(v)\<close> finds (nothing when \<open>u\<close> is no key of \<open>m\<close>),
  \<open>guardadas m\<close> lists the values of all inner dicts of \<open>m\<close> in iteration order, and
  \<open>entradas m\<close> lists them together with the pair of keys they are stored under. The
  predicates below are the invariants of the graphs the calls build.\<close>

definition celula :: "mapa \<Rightarrow> ref \<Rightarrow> ref \<Rightarrow> ref option" where
  "celula m u v = (case map_of m u of None \<Rightarrow> None | Some d \<Rightarrow> map_of d v)"

definition guardadas :: "mapa \<Rightarrow> ref list" where
  "guardadas m = concat (map (\<lambda>(u, d). map snd d) m)"

definition entradas :: "mapa \<Rightarrow> ((ref \<times> ref) \<times> ref) list" where
  "entradas m = concat (map (\<lambda>(u, d). map (\<lambda>(v, a). ((u, v), a)) d) m)"

definition chaves_distintas :: "mapa \<Rightarrow> bool" where
  "chaves_distintas m \<longleftrightarrow> distinct (map fst m) \<and> (\<forall>u d. (u, d) \<in> set m \<longrightarrow> distinct (map fst d))"

definition inv_base :: "('a, 'b) Grafo \<Rightarrow> bool" where
  "inv_base s \<longleftrightarrow>
     chaves_distintas (mapa_em s (g_saida s)) \<and>
     chaves_distintas (mapa_em s (g_entrada s)) \<and>
     (\<forall>u. map_of (mapa_em s (g_entrada s)) u = None \<longleftrightarrow> map_of (mapa_em s (g_saida s)) u = None) \<and>
     (\<forall>u d. map_of (mapa_em s (g_saida s)) u = Some d \<longrightarrow> u < prox s) \<and>
     (\<forall>u v a. celula (mapa_em s (g_saida s)) u v = Some a \<longrightarrow> a < prox s)"

text \<open>Every edge found under \<open>u\<close> and \<open>v\<close> has \<open>v\<close> opposite to \<open>u\<close>.\<close>

definition inv_oposto :: "('a, 'b) Grafo \<Rightarrow> bool" where
  "inv_oposto s \<longleftrightarrow>
     (\<forall>u v a. celula (mapa_em s (g_saida s)) u v = Some a \<longrightarrow>
        (\<exists>A. aresta_em s a = Some A \<and> oposto A u = v))"

text \<open>Directed graphs: what \<open>_entrada\<close> holds under \<open>v\<close> and \<open>u\<close> is also in \<open>_saida\<close> under
  \<open>u\<close> and \<open>v\<close>, and no edge is stored in two places of \<open>_saida\<close>.\<close>

definition inv_dir :: "('a, 'b) Grafo \<Rightarrow> bool" where
  "inv_dir s \<longleftrightarrow>
     (\<forall>u v. celula (mapa_em s (g_entrada s)) v u \<noteq> None \<longrightarrow>
        celula (mapa_em s (g_saida s)) u v \<noteq> None) \<and>
     (\<forall>u v u' v' a. celula (mapa_em s (g_saida s)) u v = Some a \<longrightarrow>
        celula (mapa_em s (g_saida s)) u' v' = Some a \<longrightarrow> u' = u \<and> v' = v)"

text \<open>Graphs without direction used as simple graphs: the store is symmetric, has no loop,
  and an edge is stored in exactly the two places of its endpoints.\<close>

definition inv_nd :: "('a, 'b) Grafo \<Rightarrow> bool" where
  "inv_nd s \<longleftrightarrow>
     (\<forall>u v. celula (mapa_em s (g_saida s)) u v = celula (mapa_em s (g_saida s)) v u) \<and>
     (\<forall>u. celula (mapa_em s (g_saida s)) u u = None) \<and>
     (\<forall>u v u' v' a. celula (mapa_em s (g_saida s)) u v = Some a \<longrightarrow>
        celula (mapa_em s (g_saida s)) u' v' = Some a \<longrightarrow>
        (u' = u \<and> v' = v) \<or> (u' = v \<and> v' = u))"

text \<open>A call keeps to simple graphs (the class docstring: "grafo simples") when every
  \<open>inserir_aresta\<close> joins two distinct vertices of the graph.\<close>

fun chamada_simples :: "('a, 'b) Grafo \<Rightarrow> ('a, 'b) chamada \<Rightarrow> bool" where
  "chamada_simples s (InserirAresta u v x) \<longleftrightarrow>
     u \<noteq> v \<and> u \<in> set (vertices s) \<and> v \<in> set (vertices s)"
| "chamada_simples s (InserirVertice x) \<longleftrightarrow> True"
| "chamada_simples s (CriarVertice x) \<longleftrightarrow> True"

fun chamadas_simples :: "('a, 'b) Grafo \<Rightarrow> ('a, 'b) chamada list \<Rightarrow> bool" where
  "chamadas_simples s [] \<longleftrightarrow> True"
| "chamadas_simples s (c # cs) \<longleftrightarrow> chamada_simples s c \<and> chamadas_simples (executar s c) cs"

text \<open>More graphs used to exercise the theorems: the calls of the script as a list; a
  graph without direction with a loop at its only vertex; a graph without direction after
  a failed \<open>inserir_aresta\<close> from its only vertex to an outside vertex; the directed graph
  on \<open>a\<close> and \<open>b\<close> after a failed \<open>inserir_aresta\<close> from \<open>a\<close> to the outside vertex \<open>c\<close>; and
  a directed graph with three vertices, a fourth vertex created outside it and the edge
  from \<open>a\<close> to \<open>b\<close>.\<close>

definition chamadas_exemplo :: "(string, 'b option) chamada list" where
  "chamadas_exemplo =
     [InserirVertice ''a'', InserirVertice ''b'', InserirVertice ''c'', InserirVertice ''d'',
      InserirVertice ''e'', InserirVertice ''f'',
      InserirAresta 1 2 None, InserirAresta 1 3 None, InserirAresta 3 4 None, InserirAresta 2 4 None]"

definition grafo_laco :: "(string, string) Grafo" where
  "grafo_laco = construido False [InserirVertice ''a'', InserirAresta 1 1 ''p'']"

definition grafo_meia :: "(string, string) Grafo" where
  "grafo_meia = construido False [InserirVertice ''a'', CriarVertice ''c'', InserirAresta 1 2 ''p'']"

definition grafo_falha :: "(string, string) Grafo" where
  "grafo_falha =
     construido True [InserirVertice ''a'', InserirVertice ''b'', CriarVertice ''c'',
                      InserirAresta 2 4 ''p'']"

definition grafo_seta :: "(string, string) Grafo" where
  "grafo_seta =
     construido True [InserirVertice ''a'', InserirVertice ''b'', InserirVertice ''c'',
                      CriarVertice ''d'', InserirAresta 2 3 ''p'']"

section \<open>Properties\<close>

subsection \<open>Evaluation and frame lemmas\<close>

lemmas avaliar =
  construido_def Grafo_init_def novo_mapa_def criar_vertice_def criar_aresta_def
  inserir_vertice_def inserir_aresta_def registrar_def gravar_def e_direcionado_def
  dict_setitem_def dict_getitem_def dict_get_def dict_keys_def dict_values_def
  num_vertices_def num_arestas_def grau_def vertices_def aresta_def arestas_incidentes_def
  Vertice_init_def Aresta_init_def arestas_def set_update_def set_add_def hash_em_def
  Aresta_eq_def

lemma gravar_Inr:
  "map_of (mapa_em s m) u = Some d \<Longrightarrow>
   gravar m u v a s =
     Inr (s\<lparr>mapa_em := (mapa_em s)(m := AList.update u (AList.update v a d) (mapa_em s m))\<rparr>)"
  by (simp add: gravar_def dict_getitem_def dict_setitem_def)

lemma gravar_Inl: "map_of (mapa_em s m) u = None \<Longrightarrow> gravar m u v a s = Inl KeyError"
  by (simp add: gravar_def dict_getitem_def)

lemma gravar_frame:
  "gravar m u v a s = Inr s' \<Longrightarrow>
   g_saida s' = g_saida s \<and> g_entrada s' = g_entrada s \<and> prox s' = prox s \<and>
   vertice_em s' = vertice_em s \<and> aresta_em s' = aresta_em s"
  by (auto simp: gravar_def dict_getitem_def split: option.splits)

lemma inserir_aresta_frame:
  "g_saida (snd (inserir_aresta s u v x)) = g_saida s"
  "g_entrada (snd (inserir_aresta s u v x)) = g_entrada s"
  "prox (snd (inserir_aresta s u v x)) = Suc (prox s)"
  "vertice_em (snd (inserir_aresta s u v x)) = vertice_em s"
  "aresta_em (snd (inserir_aresta s u v x)) = (aresta_em s)(prox s \<mapsto> Aresta_init u v x)"
  by (auto simp: inserir_aresta_def criar_aresta_def Let_def split: sum.splits dest!: gravar_frame)

lemma inserir_aresta_ref: "fst (inserir_aresta s u v x) = Inr a \<Longrightarrow> a = prox s"
  by (auto simp: inserir_aresta_def criar_aresta_def Let_def split: sum.splits)

lemma inserir_vertice_frame:
  "g_saida (snd (inserir_vertice s x)) = g_saida s"
  "g_entrada (snd (inserir_vertice s x)) = g_entrada s"
  "prox (snd (inserir_vertice s x)) = Suc (prox s)"
  "aresta_em (snd (inserir_vertice s x)) = aresta_em s"
  "vertice_em (snd (inserir_vertice s x)) = (vertice_em s)(prox s \<mapsto> Vertice_init x)"
  "fst (inserir_vertice s x) = prox s"
  by (auto simp: inserir_vertice_def criar_vertice_def Let_def registrar_def)

lemma criar_vertice_frame:
  "g_saida (snd (criar_vertice s x)) = g_saida s"
  "g_entrada (snd (criar_vertice s x)) = g_entrada s"
  "prox (snd (criar_vertice s x)) = Suc (prox s)"
  "aresta_em (snd (criar_vertice s x)) = aresta_em s"
  "mapa_em (snd (criar_vertice s x)) = mapa_em s"
  by (simp_all add: criar_vertice_def)

lemma e_direcionado_executar: "e_direcionado (executar s c) = e_direcionado s"
  by (cases c)
     (simp_all add: e_direcionado_def inserir_aresta_frame inserir_vertice_frame
        criar_vertice_frame)

lemma e_direcionado_foldl: "e_direcionado (foldl executar s cs) = e_direcionado s"
  by (induction cs arbitrary: s) (simp_all add: e_direcionado_executar)

lemma e_direcionado_init: "e_direcionado (Grafo_init d) = d"
  by (simp add: Grafo_init_def novo_mapa_def e_direcionado_def Let_def)

lemma e_direcionado_construido: "e_direcionado (construido d cs) = d"
  by (simp add: construido_def e_direcionado_foldl e_direcionado_init)

subsection \<open>What the two mutators write\<close>

lemma inserir_vertice_saida:
  "mapa_em (snd (inserir_vertice s x)) (g_saida s) = AList.update (prox s) [] (mapa_em s (g_saida s))"
  by (simp add: inserir_vertice_def criar_vertice_def registrar_def e_direcionado_def dict_setitem_def Let_def)

lemma inserir_vertice_entrada:
  "mapa_em (snd (inserir_vertice s x)) (g_entrada s) = AList.update (prox s) [] (mapa_em s (g_entrada s))"
  by (simp add: inserir_vertice_def criar_vertice_def registrar_def e_direcionado_def dict_setitem_def Let_def)

lemma inserir_aresta_sem_origem:
  assumes "map_of (mapa_em s (g_saida s)) u = None"
  shows "fst (inserir_aresta s u v x) = Inl KeyError"
    and "mapa_em (snd (inserir_aresta s u v x)) = mapa_em s"
  using assms by (simp_all add: inserir_aresta_def criar_aresta_def gravar_Inl)

lemma inserir_aresta_dir_sem_destino:
  assumes "e_direcionado s" "map_of (mapa_em s (g_saida s)) u = Some du"
    "map_of (mapa_em s (g_entrada s)) v = None"
  shows "fst (inserir_aresta s u v x) = Inl KeyError"
    and "mapa_em (snd (inserir_aresta s u v x)) =
           (mapa_em s)(g_saida s := AList.update u (AList.update v (prox s) du) (mapa_em s (g_saida s)))"
  using assms by (simp_all add: inserir_aresta_def criar_aresta_def gravar_Inl gravar_Inr e_direcionado_def)

lemma inserir_aresta_dir_ok:
  assumes "e_direcionado s" "map_of (mapa_em s (g_saida s)) u = Some du"
    "map_of (mapa_em s (g_entrada s)) v = Some dv"
  shows "fst (inserir_aresta s u v x) = Inr (prox s)"
    and "mapa_em (snd (inserir_aresta s u v x)) =
           (mapa_em s)(g_saida s := AList.update u (AList.update v (prox s) du) (mapa_em s (g_saida s)),
                       g_entrada s := AList.update v (AList.update u (prox s) dv) (mapa_em s (g_entrada s)))"
  using assms by (simp_all add: inserir_aresta_def criar_aresta_def gravar_Inl gravar_Inr e_direcionado_def)

lemma inserir_aresta_nd_sem_destino:
  assumes "\<not> e_direcionado s" "map_of (mapa_em s (g_saida s)) u = Some du"
    "map_of (mapa_em s (g_saida s)) v = None"
  shows "fst (inserir_aresta s u v x) = Inl KeyError"
    and "mapa_em (snd (inserir_aresta s u v x)) =
           (mapa_em s)(g_saida s := AList.update u (AList.update v (prox s) du) (mapa_em s (g_saida s)))"
proof -
  from assms have "u \<noteq> v" by auto
  with assms show "fst (inserir_aresta s u v x) = Inl KeyError"
    and "mapa_em (snd (inserir_aresta s u v x)) =
           (mapa_em s)(g_saida s := AList.update u (AList.update v (prox s) du) (mapa_em s (g_saida s)))"
    by (simp_all add: inserir_aresta_def criar_aresta_def gravar_Inl gravar_Inr e_direcionado_def update_conv')
qed

lemma inserir_aresta_nd_ok:
  assumes "\<not> e_direcionado s" "map_of (mapa_em s (g_saida s)) u = Some du"
    "map_of (mapa_em s (g_saida s)) v = Some dv" "u \<noteq> v"
  shows "fst (inserir_aresta s u v x) = Inr (prox s)"
    and "mapa_em (snd (inserir_aresta s u v x)) =
           (mapa_em s)(g_saida s := AList.update v (AList.update u (prox s) dv)
              (AList.update u (AList.update v (prox s) du) (mapa_em s (g_saida s))))"
  using assms by (simp_all add: inserir_aresta_def criar_aresta_def gravar_Inl gravar_Inr e_direcionado_def update_conv')

lemma inserir_aresta_nd_laco:
  assumes "\<not> e_direcionado s" "map_of (mapa_em s (g_saida s)) u = Some du"
  shows "fst (inserir_aresta s u u x) = Inr (prox s)"
    and "mapa_em (snd (inserir_aresta s u u x)) =
           (mapa_em s)(g_saida s := AList.update u (AList.update u (prox s) du) (mapa_em s (g_saida s)))"
  using assms by (simp_all add: inserir_aresta_def criar_aresta_def gravar_Inl gravar_Inr e_direcionado_def update_conv')

lemma set_update_subset: "set (AList.update k v al) \<subseteq> insert (k, v) (set al)"
  by (induction al) auto

lemma celula_gravar:
  "map_of m u = Some d \<Longrightarrow>
   celula (AList.update u (AList.update v a d) m) u' v' =
     (if u' = u \<and> v' = v then Some a else celula m u' v')"
  by (simp add: celula_def update_conv')

lemma celula_registrar:
  "celula (AList.update n [] m) u v = (if u = n then None else celula m u v)"
  by (simp add: celula_def update_conv')

lemma chaves_distintas_update:
  assumes "chaves_distintas m" "distinct (map fst d)"
  shows "chaves_distintas (AList.update u d m)"
  using assms set_update_subset [of u d m]
  by (auto simp: chaves_distintas_def distinct_update)

lemma chaves_distintas_gravar:
  assumes "chaves_distintas m" "map_of m u = Some d"
  shows "chaves_distintas (AList.update u (AList.update v a d) m)"
proof -
  from assms(2) have "(u, d) \<in> set m" by (rule map_of_SomeD)
  with assms(1) have "distinct (map fst d)" by (auto simp: chaves_distintas_def)
  then have "distinct (map fst (AList.update v a d))" by (rule distinct_update)
  with assms(1) show ?thesis by (rule chaves_distintas_update)
qed

lemma inv_base_init: "inv_base (Grafo_init d)"
  by (simp add: inv_base_def Grafo_init_def novo_mapa_def chaves_distintas_def celula_def Let_def)

lemma inv_base_criar_vertice: "inv_base s \<Longrightarrow> inv_base (snd (criar_vertice s x))"
  by (auto simp: inv_base_def criar_vertice_def less_Suc_eq)

lemma inv_base_inserir_vertice:
  assumes "inv_base s"
  shows "inv_base (snd (inserir_vertice s x))"
proof -
  let ?s' = "snd (inserir_vertice s x)"
  have ms: "mapa_em ?s' (g_saida ?s') = AList.update (prox s) [] (mapa_em s (g_saida s))"
    by (simp add: inserir_vertice_frame inserir_vertice_saida)
  have me: "mapa_em ?s' (g_entrada ?s') = AList.update (prox s) [] (mapa_em s (g_entrada s))"
    by (simp add: inserir_vertice_frame inserir_vertice_entrada)
  have p: "prox ?s' = Suc (prox s)"
    by (simp add: inserir_vertice_frame)
  from assms show ?thesis
    unfolding inv_base_def ms me p
    by (auto simp: chaves_distintas_update update_conv' celula_registrar less_Suc_eq split: if_splits)
qed

lemma gravar_InrE:
  assumes "gravar m u v a s = Inr s'"
  obtains d where "map_of (mapa_em s m) u = Some d"
    and "s' = s\<lparr>mapa_em := (mapa_em s)(m := AList.update u (AList.update v a d) (mapa_em s m))\<rparr>"
  using assms by (auto simp: gravar_def dict_getitem_def dict_setitem_def split: option.splits)

lemma inv_base_criar_aresta: "inv_base s \<Longrightarrow> inv_base (snd (criar_aresta s u v x))"
  by (auto simp: inv_base_def criar_aresta_def less_Suc_eq)

lemma inv_base_gravar:
  assumes "inv_base s" "a < prox s" "m = g_saida s \<or> m = g_entrada s"
    "gravar m u v a s = Inr s'"
  shows "inv_base s'"
proof -
  from assms(4) obtain d where d: "map_of (mapa_em s m) u = Some d"
    and s': "s' = s\<lparr>mapa_em := (mapa_em s)(m := AList.update u (AList.update v a d) (mapa_em s m))\<rparr>"
    by (rule gravar_InrE)
  let ?G = "AList.update u (AList.update v a d) (mapa_em s m)"
  have G1: "chaves_distintas (mapa_em s m) \<Longrightarrow> chaves_distintas ?G"
    using d by (simp add: chaves_distintas_gravar)
  have G2: "\<And>u'. map_of ?G u' = None \<longleftrightarrow> map_of (mapa_em s m) u' = None"
    using d by (simp add: update_conv')
  have G3: "\<And>u' v' b. celula ?G u' v' = Some b \<Longrightarrow> b = a \<or> celula (mapa_em s m) u' v' = Some b"
    using d by (auto simp: celula_gravar split: if_splits)
  have fr: "g_saida s' = g_saida s" "g_entrada s' = g_entrada s" "prox s' = prox s"
    by (simp_all add: s')
  have ms: "mapa_em s' (g_saida s) = (if m = g_saida s then ?G else mapa_em s (g_saida s))"
    by (simp add: s')
  have me: "mapa_em s' (g_entrada s) = (if m = g_entrada s then ?G else mapa_em s (g_entrada s))"
    by (simp add: s')
  have c1: "chaves_distintas (mapa_em s' (g_saida s))"
    using assms(1) G1 by (auto simp: ms inv_base_def)
  have c2: "chaves_distintas (mapa_em s' (g_entrada s))"
    using assms(1) G1 by (auto simp: me inv_base_def)
  have c3: "\<forall>u'. map_of (mapa_em s' (g_entrada s)) u' = None \<longleftrightarrow>
                 map_of (mapa_em s' (g_saida s)) u' = None"
    using assms(1) G2 by (auto simp: ms me inv_base_def)
  have c4: "\<forall>u' d'. map_of (mapa_em s' (g_saida s)) u' = Some d' \<longrightarrow> u' < prox s"
  proof (intro allI impI)
    fix u' d' assume "map_of (mapa_em s' (g_saida s)) u' = Some d'"
    then have "map_of (mapa_em s (g_saida s)) u' \<noteq> None"
      using G2 [of u'] by (auto simp: ms split: if_splits)
    with assms(1) show "u' < prox s" by (auto simp: inv_base_def)
  qed
  have c5: "\<forall>u' v' b. celula (mapa_em s' (g_saida s)) u' v' = Some b \<longrightarrow> b < prox s"
  proof (intro allI impI)
    fix u' v' b assume "celula (mapa_em s' (g_saida s)) u' v' = Some b"
    then have "b = a \<or> celula (mapa_em s (g_saida s)) u' v' = Some b"
      using G3 [of u' v' b] by (simp add: ms split: if_splits)
    with assms(1,2) show "b < prox s" by (auto simp: inv_base_def)
  qed
  from c1 c2 c3 c4 c5 show ?thesis
    by (simp add: inv_base_def fr)
qed

lemma inv_base_inserir_aresta:
  assumes "inv_base s"
  shows "inv_base (snd (inserir_aresta s u v x))"
proof -
  let ?s1 = "snd (criar_aresta s u v x)"
  have b1: "inv_base ?s1" using assms by (rule inv_base_criar_aresta)
  have p1: "prox s < prox ?s1" by (simp add: criar_aresta_def)
  show ?thesis
  proof (cases "gravar (g_saida ?s1) u v (prox s) ?s1")
    case (Inl e)
    then show ?thesis using b1 by (simp add: inserir_aresta_def criar_aresta_def)
  next
    case (Inr s2)
    have b2: "inv_base s2" using b1 p1 _ Inr by (rule inv_base_gravar) simp
    have f2: "g_entrada s2 = g_entrada ?s1" "prox s2 = prox ?s1"
      using gravar_frame [OF Inr] by simp_all
    show ?thesis
    proof (cases "gravar (g_entrada s2) v u (prox s) s2")
      case (Inl e)
      then show ?thesis using b2 Inr by (simp add: inserir_aresta_def criar_aresta_def)
    next
      case (Inr s3)
      have "inv_base s3" using b2 _ _ Inr by (rule inv_base_gravar) (use p1 f2 in simp_all)
      then show ?thesis using Inr \<open>gravar (g_saida ?s1) u v (prox s) ?s1 = Inr s2\<close>
        by (simp add: inserir_aresta_def criar_aresta_def)
    qed
  qed
qed

lemma inv_base_executar: "inv_base s \<Longrightarrow> inv_base (executar s c)"
  by (cases c) (simp_all add: inv_base_inserir_vertice inv_base_inserir_aresta inv_base_criar_vertice)

lemma inv_base_foldl: "inv_base s \<Longrightarrow> inv_base (foldl executar s cs)"
  by (induction cs arbitrary: s) (simp_all add: inv_base_executar)

lemma inv_base_construido: "inv_base (construido d cs)"
  by (simp add: construido_def inv_base_foldl inv_base_init)

lemma vertices_iff: "u \<in> set (vertices s) \<longleftrightarrow> map_of (mapa_em s (g_saida s)) u \<noteq> None"
  by (simp add: vertices_def dict_keys_def map_of_eq_None_iff)

lemma inserir_aresta_sucesso:
  assumes "map_of (mapa_em s (g_saida s)) u \<noteq> None" "map_of (mapa_em s (g_entrada s)) v \<noteq> None"
  shows "fst (inserir_aresta s u v x) = Inr (prox s)"
proof -
  from assms obtain du dv where du: "map_of (mapa_em s (g_saida s)) u = Some du"
    and dv: "map_of (mapa_em s (g_entrada s)) v = Some dv" by auto
  show ?thesis
  proof (cases "e_direcionado s")
    case True
    then show ?thesis using du dv by (rule inserir_aresta_dir_ok)
  next
    case False
    then have eq: "g_entrada s = g_saida s" by (simp add: e_direcionado_def)
    show ?thesis
    proof (cases "u = v")
      case True
      then show ?thesis using inserir_aresta_nd_laco(1) [OF False du] by simp
    next
      case ne: False
      show ?thesis using False du dv ne unfolding eq by (rule inserir_aresta_nd_ok(1))
    qed
  qed
qed

lemma inserir_aresta_falha:
  assumes "map_of (mapa_em s (g_saida s)) u = None \<or> map_of (mapa_em s (g_entrada s)) v = None"
  shows "fst (inserir_aresta s u v x) = Inl KeyError"
proof (cases "map_of (mapa_em s (g_saida s)) u")
  case None
  then show ?thesis by (rule inserir_aresta_sem_origem)
next
  case (Some du)
  with assms have nv: "map_of (mapa_em s (g_entrada s)) v = None" by simp
  show ?thesis
  proof (cases "e_direcionado s")
    case True
    then show ?thesis using Some nv by (rule inserir_aresta_dir_sem_destino)
  next
    case False
    then have eq: "g_entrada s = g_saida s" by (simp add: e_direcionado_def)
    show ?thesis using False Some nv unfolding eq by (rule inserir_aresta_nd_sem_destino)
  qed
qed

lemma inserir_aresta_celula_saida:
  assumes "fst (inserir_aresta s u v x) = Inr a"
  shows "celula (mapa_em (snd (inserir_aresta s u v x)) (g_saida s)) u' v' =
           (if (u' = u \<and> v' = v) \<or> (\<not> e_direcionado s \<and> u' = v \<and> v' = u) then Some (prox s)
            else celula (mapa_em s (g_saida s)) u' v')"
proof -
  from assms have "map_of (mapa_em s (g_saida s)) u \<noteq> None \<and> map_of (mapa_em s (g_entrada s)) v \<noteq> None"
    using inserir_aresta_falha [of s u v x] by fastforce
  then obtain du dv where du: "map_of (mapa_em s (g_saida s)) u = Some du"
    and dv: "map_of (mapa_em s (g_entrada s)) v = Some dv" by auto
  show ?thesis
  proof (cases "e_direcionado s")
    case True
    then have "g_entrada s \<noteq> g_saida s" by (simp add: e_direcionado_def)
    then show ?thesis using True du
      by (simp add: inserir_aresta_dir_ok(2) [OF True du dv] celula_gravar)
  next
    case False
    then have eq: "g_entrada s = g_saida s" by (simp add: e_direcionado_def)
    show ?thesis
    proof (cases "u = v")
      case True
      have m: "mapa_em (snd (inserir_aresta s u v x)) =
                 (mapa_em s)(g_saida s := AList.update u (AList.update u (prox s) du) (mapa_em s (g_saida s)))"
        using inserir_aresta_nd_laco(2) [OF False du, of x] True by simp
      have "celula (AList.update u (AList.update u (prox s) du) (mapa_em s (g_saida s))) u' v' =
              (if u' = u \<and> v' = u then Some (prox s) else celula (mapa_em s (g_saida s)) u' v')"
        using du by (rule celula_gravar)
      then show ?thesis using True False m
        by auto
    next
      case ne: False
      have dv': "map_of (mapa_em s (g_saida s)) v = Some dv" using dv by (simp add: eq)
      have m1: "map_of (AList.update u (AList.update v (prox s) du) (mapa_em s (g_saida s))) v = Some dv"
        using dv' ne by (simp add: update_conv')
      show ?thesis using False du ne
        by (simp add: inserir_aresta_nd_ok(2) [OF False du dv' ne] celula_gravar [OF m1] celula_gravar [OF du])
    qed
  qed
qed

lemma inserir_aresta_chaves:
  "map_of (mapa_em (snd (inserir_aresta s u v x)) (g_saida s)) u' = None \<longleftrightarrow>
   map_of (mapa_em s (g_saida s)) u' = None"
  "map_of (mapa_em (snd (inserir_aresta s u v x)) (g_entrada s)) u' = None \<longleftrightarrow>
   map_of (mapa_em s (g_entrada s)) u' = None"
  by (auto simp: inserir_aresta_def criar_aresta_def update_conv' split: sum.splits if_splits
       elim!: gravar_InrE)

subsection \<open>Lookups and degrees in terms of cells\<close>

lemma grau_card:
  assumes "chaves_distintas m" "map_of m u = Some d"
  shows "length d = card {v. celula m u v \<noteq> None}"
proof -
  from assms(2) have "(u, d) \<in> set m" by (rule map_of_SomeD)
  with assms(1) have dd: "distinct (map fst d)" by (auto simp: chaves_distintas_def)
  have "{v. celula m u v \<noteq> None} = dom (map_of d)"
    using assms(2) by (auto simp: celula_def)
  also have "\<dots> = set (map fst d)" by (simp add: dom_map_of_conv_image_fst)
  finally show ?thesis using distinct_card [OF dd] by simp
qed

lemma finite_vizinhos: "finite {v. celula m u v \<noteq> None}"
proof (cases "map_of m u")
  case None
  then show ?thesis by (simp add: celula_def)
next
  case (Some d)
  then have "{v. celula m u v \<noteq> None} = dom (map_of d)" by (auto simp: celula_def)
  then show ?thesis by (simp add: finite_dom_map_of)
qed

lemma grau_saida:
  assumes "inv_base s" "map_of (mapa_em s (g_saida s)) u \<noteq> None"
  shows "grau s u True = Inr (card {v. celula (mapa_em s (g_saida s)) u v \<noteq> None})"
proof -
  from assms(2) obtain d where d: "map_of (mapa_em s (g_saida s)) u = Some d" by auto
  from assms(1) have "chaves_distintas (mapa_em s (g_saida s))" by (simp add: inv_base_def)
  from grau_card [OF this d] d show ?thesis
    by (simp add: grau_def dict_getitem_def)
qed

lemma grau_entrada:
  assumes "inv_base s" "map_of (mapa_em s (g_entrada s)) u \<noteq> None"
  shows "grau s u False = Inr (card {v. celula (mapa_em s (g_entrada s)) u v \<noteq> None})"
proof -
  from assms(2) obtain d where d: "map_of (mapa_em s (g_entrada s)) u = Some d" by auto
  from assms(1) have "chaves_distintas (mapa_em s (g_entrada s))" by (simp add: inv_base_def)
  from grau_card [OF this d] d show ?thesis
    by (simp add: grau_def dict_getitem_def)
qed

lemma aresta_celula:
  "map_of (mapa_em s (g_saida s)) u \<noteq> None \<Longrightarrow>
   aresta s u v = Inr (celula (mapa_em s (g_saida s)) u v)"
  by (auto simp: aresta_def dict_getitem_def dict_get_def celula_def)

lemma aresta_KeyError:
  "map_of (mapa_em s (g_saida s)) u = None \<Longrightarrow> aresta s u v = Inl KeyError"
  by (simp add: aresta_def dict_getitem_def)

lemma inserir_aresta_celula_entrada:
  assumes "fst (inserir_aresta s u v x) = Inr a"
  shows "celula (mapa_em (snd (inserir_aresta s u v x)) (g_entrada s)) u' v' =
           (if (u' = v \<and> v' = u) \<or> (\<not> e_direcionado s \<and> u' = u \<and> v' = v) then Some (prox s)
            else celula (mapa_em s (g_entrada s)) u' v')"
proof (cases "e_direcionado s")
  case True
  from assms have "map_of (mapa_em s (g_saida s)) u \<noteq> None \<and> map_of (mapa_em s (g_entrada s)) v \<noteq> None"
    using inserir_aresta_falha [of s u v x] by fastforce
  then obtain du dv where du: "map_of (mapa_em s (g_saida s)) u = Some du"
    and dv: "map_of (mapa_em s (g_entrada s)) v = Some dv" by auto
  show ?thesis using True dv
    by (simp add: inserir_aresta_dir_ok(2) [OF True du dv] celula_gravar)
next
  case False
  then have eq: "g_entrada s = g_saida s" by (simp add: e_direcionado_def)
  show ?thesis using inserir_aresta_celula_saida [OF assms, of u' v'] False
    by (auto simp: eq)
qed

lemma chaves_entrada:
  "inv_base s \<Longrightarrow> map_of (mapa_em s (g_entrada s)) w = None \<longleftrightarrow> map_of (mapa_em s (g_saida s)) w = None"
  by (simp add: inv_base_def)

lemma card_vizinhos_novo:
  assumes "celula m u v = None"
  shows "card (insert v {w. celula m u w \<noteq> None}) = Suc (card {w. celula m u w \<noteq> None})"
  using assms finite_vizinhos [of m u] by simp

lemma arestas_incidentes_saida:
  "map_of (mapa_em s (g_saida s)) u = Some d \<Longrightarrow> arestas_incidentes s u True = Inr (map snd d)"
  by (simp add: arestas_incidentes_def dict_getitem_def dict_values_def)

lemma inserir_aresta_celula_geral:
  "celula (mapa_em (snd (inserir_aresta s u v x)) (g_saida s)) u' v' =
     (if map_of (mapa_em s (g_saida s)) u \<noteq> None \<and> u' = u \<and> v' = v then Some (prox s)
      else if map_of (mapa_em s (g_saida s)) u \<noteq> None \<and> map_of (mapa_em s (g_entrada s)) v \<noteq> None \<and>
              \<not> e_direcionado s \<and> u' = v \<and> v' = u then Some (prox s)
      else celula (mapa_em s (g_saida s)) u' v')"
proof (cases "map_of (mapa_em s (g_saida s)) u")
  case None
  then show ?thesis by (simp add: inserir_aresta_sem_origem(2))
next
  case (Some du)
  show ?thesis
  proof (cases "map_of (mapa_em s (g_entrada s)) v")
    case None
    show ?thesis
    proof (cases "e_direcionado s")
      case True
      show ?thesis using Some None
        by (simp add: inserir_aresta_dir_sem_destino(2) [OF True Some None] celula_gravar)
    next
      case False
      then have eq: "g_entrada s = g_saida s" by (simp add: e_direcionado_def)
      from None have nv: "map_of (mapa_em s (g_saida s)) v = None" by (simp add: eq)
      show ?thesis using Some None
        by (simp add: inserir_aresta_nd_sem_destino(2) [OF False Some nv] celula_gravar)
    qed
  next
    case dv: (Some dv)
    have ok: "fst (inserir_aresta s u v x) = Inr (prox s)"
      using Some dv by (intro inserir_aresta_sucesso) simp_all
    show ?thesis using inserir_aresta_celula_saida [OF ok, of u' v'] Some dv by auto
  qed
qed

lemma inserir_aresta_celula_entrada_dir:
  assumes "e_direcionado s"
  shows "celula (mapa_em (snd (inserir_aresta s u v x)) (g_entrada s)) u' v' =
     (if map_of (mapa_em s (g_saida s)) u \<noteq> None \<and> map_of (mapa_em s (g_entrada s)) v \<noteq> None \<and>
         u' = v \<and> v' = u then Some (prox s)
      else celula (mapa_em s (g_entrada s)) u' v')"
proof -
  from assms have ne: "g_entrada s \<noteq> g_saida s" by (simp add: e_direcionado_def)
  show ?thesis
  proof (cases "map_of (mapa_em s (g_saida s)) u")
    case None
    then show ?thesis by (simp add: inserir_aresta_sem_origem(2))
  next
    case (Some du)
    show ?thesis
    proof (cases "map_of (mapa_em s (g_entrada s)) v")
      case None
      show ?thesis using Some None ne
        by (simp add: inserir_aresta_dir_sem_destino(2) [OF assms Some None])
    next
      case dv: (Some dv)
      have ok: "fst (inserir_aresta s u v x) = Inr (prox s)"
        using Some dv by (intro inserir_aresta_sucesso) simp_all
      show ?thesis using inserir_aresta_celula_entrada [OF ok, of u' v'] Some dv assms by auto
    qed
  qed
qed

lemma celula_fresca:
  "inv_base s \<Longrightarrow> celula (mapa_em s (g_saida s)) u v \<noteq> Some (prox s)"
  by (fastforce simp: inv_base_def)

lemma chave_fresca:
  "inv_base s \<Longrightarrow> map_of (mapa_em s (g_saida s)) (prox s) = None"
  by (fastforce simp: inv_base_def)

lemma celula_None_sem_chave: "map_of m u = None \<Longrightarrow> celula m u v = None"
  by (simp add: celula_def)

subsection \<open>The set of edges and the flat view of a dict\<close>

lemma set_add_eq: "set_add h x xs = (if x \<in> set xs then xs else xs @ [x])"
  by (auto simp: set_add_def Aresta_eq_def)

lemma set_update_set: "set (set_update h ys xs) = set xs \<union> set ys"
  unfolding set_update_def by (induction ys arbitrary: xs) (auto simp: set_add_eq)

lemma set_update_distinct: "distinct xs \<Longrightarrow> distinct (set_update h ys xs)"
  unfolding set_update_def by (induction ys arbitrary: xs) (auto simp: set_add_eq)

lemma fold_set_update_set:
  "set (fold (\<lambda>d r. set_update h (dict_values d) r) ds r0) = set r0 \<union> (\<Union>d \<in> set ds. snd ` set d)"
  by (induction ds arbitrary: r0) (auto simp: set_update_set dict_values_def)

lemma fold_set_update_distinct:
  "distinct r0 \<Longrightarrow> distinct (fold (\<lambda>d r. set_update h (dict_values d) r) ds r0)"
  by (induction ds arbitrary: r0) (auto simp: set_update_distinct)

lemma guardadas_Nil: "guardadas [] = []"
  by (simp add: guardadas_def)

lemma guardadas_Cons: "guardadas ((u, d) # m) = map snd d @ guardadas m"
  by (simp add: guardadas_def)

lemma set_guardadas: "set (guardadas m) = (\<Union>d \<in> set (map snd m). snd ` set d)"
proof (induction m)
  case Nil
  then show ?case by (simp add: guardadas_Nil)
next
  case (Cons p m)
  obtain u d where p: "p = (u, d)" by (cases p)
  show ?case using Cons.IH by (simp add: p guardadas_Cons)
qed

lemma arestas_set: "set (arestas hi ht s) = set (guardadas (mapa_em s (g_saida s)))"
  by (simp add: arestas_def fold_set_update_set) (simp add: set_guardadas dict_values_def)

lemma arestas_distinct: "distinct (arestas hi ht s)"
  by (simp add: arestas_def fold_set_update_distinct)

lemma entradas_Nil: "entradas [] = []"
  by (simp add: entradas_def)

lemma entradas_Cons:
  "entradas ((u, d) # m) = map (\<lambda>(v, a). ((u, v), a)) d @ entradas m"
  by (simp add: entradas_def)

lemma entradas_chave: "((u, v), a) \<in> set (entradas m) \<Longrightarrow> u \<in> fst ` set m"
proof (induction m)
  case Nil
  then show ?case by (simp add: entradas_Nil)
next
  case (Cons p m)
  obtain u0 d0 where p: "p = (u0, d0)" by (cases p)
  from Cons.prems have "u = u0 \<or> ((u, v), a) \<in> set (entradas m)"
    by (auto simp: p entradas_Cons)
  then show ?case using Cons.IH by (auto simp: p)
qed

lemma map_of_linha:
  "map_of (map (\<lambda>(v, a). ((u0, v), a)) d) (u, v) = (if u = u0 then map_of d v else None)"
  by (induction d) auto

lemma map_of_entradas:
  "distinct (map fst m) \<Longrightarrow> map_of (entradas m) (u, v) = celula m u v"
proof (induction m)
  case Nil
  then show ?case by (simp add: entradas_Nil celula_def)
next
  case (Cons p m)
  obtain u0 d0 where p: "p = (u0, d0)" by (cases p)
  from Cons.prems have nk: "u0 \<notin> fst ` set m" and dm: "distinct (map fst m)"
    by (simp_all add: p)
  have IH: "map_of (entradas m) (u, v) = celula m u v" using dm by (rule Cons.IH)
  show ?case
  proof (cases "u = u0")
    case True
    have "map_of (entradas m) (u0, v) = None"
      using nk entradas_chave [of u0 v _ m] by (auto simp: map_of_eq_None_iff)
    then show ?thesis
      by (simp add: p True entradas_Cons map_add_def map_of_linha celula_def
            split: option.splits)
  next
    case False
    then show ?thesis
      using IH by (simp add: p entradas_Cons map_add_def map_of_linha celula_def)
  qed
qed

lemma distinct_entradas:
  "chaves_distintas m \<Longrightarrow> distinct (map fst (entradas m))"
proof (induction m)
  case Nil
  then show ?case by (simp add: entradas_Nil)
next
  case (Cons p m)
  obtain u0 d0 where p: "p = (u0, d0)" by (cases p)
  from Cons.prems have nk: "u0 \<notin> fst ` set m" and cm: "chaves_distintas m"
    and d0: "distinct (map fst d0)"
    by (auto simp: p chaves_distintas_def)
  have l: "map fst (map (\<lambda>(v, a). ((u0, v), a)) d0) = map (Pair u0) (map fst d0)"
    by (induction d0) auto
  have "distinct (map (Pair u0) (map fst d0))"
    using d0 by (simp add: distinct_map inj_on_def)
  moreover have "set (map (Pair u0) (map fst d0)) \<inter> fst ` set (entradas m) = {}"
    using nk entradas_chave [of u0 _ _ m] by fastforce
  ultimately show ?case
    using Cons.IH [OF cm] by (simp add: p entradas_Cons l del: map_map)
qed

lemma snd_linha: "map snd (map (\<lambda>(v, a). ((u, v), a)) d) = map snd d"
  by (induction d) auto

lemma snd_entradas: "map snd (entradas m) = guardadas m"
proof (induction m)
  case Nil
  then show ?case by (simp add: entradas_Nil guardadas_Nil)
next
  case (Cons p m)
  obtain u d where p: "p = (u, d)" by (cases p)
  show ?case using Cons.IH by (simp add: p entradas_Cons guardadas_Cons snd_linha del: map_map)
qed

lemma length_entradas: "length (entradas m) = sum_list (map (\<lambda>(v, d). length d) m)"
proof (induction m)
  case Nil
  then show ?case by (simp add: entradas_Nil)
next
  case (Cons p m)
  obtain u d where p: "p = (u, d)" by (cases p)
  show ?case using Cons.IH by (simp add: p entradas_Cons)
qed

lemma guardadas_celula:
  assumes "chaves_distintas m"
  shows "set (guardadas m) = {a. \<exists>u v. celula m u v = Some a}"
proof -
  have d: "distinct (map fst (entradas m))" using assms by (rule distinct_entradas)
  from assms have dm: "distinct (map fst m)" by (simp add: chaves_distintas_def)
  have "set (guardadas m) = snd ` set (entradas m)"
    by (simp add: snd_entradas [symmetric])
  also have "\<dots> = ran (map_of (entradas m))" using d by (simp add: ran_distinct)
  also have "\<dots> = {a. \<exists>u v. celula m u v = Some a}"
    using map_of_entradas [OF dm] by (auto simp: ran_def)
  finally show ?thesis .
qed

lemma num_arestas_entradas:
  "num_arestas s = (if e_direcionado s then length (entradas (mapa_em s (g_saida s)))
                    else length (entradas (mapa_em s (g_saida s))) div 2)"
  by (simp add: num_arestas_def length_entradas)

lemma arestas_entradas:
  "set (arestas hi ht s) = snd ` set (entradas (mapa_em s (g_saida s)))"
  using arg_cong [OF snd_entradas [of "mapa_em s (g_saida s)"], of set]
  by (simp add: arestas_set)

lemma nao_guardada:
  assumes "inv_base s" "\<And>u v. celula (mapa_em s (g_saida s)) u v \<noteq> Some a"
  shows "a \<notin> set (arestas hi ht s)"
proof -
  from assms(1) have "chaves_distintas (mapa_em s (g_saida s))" by (simp add: inv_base_def)
  then show ?thesis using assms(2) by (simp add: arestas_set guardadas_celula)
qed

lemma num_arestas_card:
  assumes "inv_base s" "e_direcionado s"
  shows "num_arestas s = card {p. celula (mapa_em s (g_saida s)) (fst p) (snd p) \<noteq> None}"
proof -
  let ?ms = "mapa_em s (g_saida s)"
  from assms(1) have cd: "chaves_distintas ?ms" by (simp add: inv_base_def)
  then have dm: "distinct (map fst ?ms)" by (simp add: chaves_distintas_def)
  have dx: "distinct (map fst (entradas ?ms))" using cd by (rule distinct_entradas)
  have "{p. celula ?ms (fst p) (snd p) \<noteq> None} = dom (map_of (entradas ?ms))"
    using map_of_entradas [OF dm] by (auto simp: dom_def)
  also have "\<dots> = set (map fst (entradas ?ms))" by (simp add: dom_map_of_conv_image_fst)
  finally have "card {p. celula ?ms (fst p) (snd p) \<noteq> None} = length (entradas ?ms)"
    using distinct_card [OF dx] by simp
  then show ?thesis using assms(2) by (simp add: num_arestas_entradas)
qed

lemma finite_celulas: "finite {p. celula m (fst p) (snd p) \<noteq> None}"
proof -
  have "{p. celula m (fst p) (snd p) \<noteq> None} \<subseteq> (\<Union>(u, d) \<in> set m. Pair u ` fst ` set d)"
  proof
    fix p assume "p \<in> {p. celula m (fst p) (snd p) \<noteq> None}"
    then obtain a where "celula m (fst p) (snd p) = Some a" by auto
    then obtain d where "map_of m (fst p) = Some d" "map_of d (snd p) = Some a"
      by (auto simp: celula_def split: option.splits)
    then have "(fst p, d) \<in> set m" "(snd p, a) \<in> set d" by (auto dest: map_of_SomeD)
    then have "(fst p, snd p) \<in> (\<Union>(u, d) \<in> set m. Pair u ` fst ` set d)" by force
    then show "p \<in> (\<Union>(u, d) \<in> set m. Pair u ` fst ` set d)" by simp
  qed
  moreover have "finite (\<Union>(u, d) \<in> set m. Pair u ` fst ` set d)" by auto
  ultimately show ?thesis by (rule finite_subset)
qed

subsection \<open>Counting stored edges\<close>

lemma conta_injetiva:
  assumes d: "distinct (map fst xs)"
    and inj: "\<And>p q a. map_of xs p = Some a \<Longrightarrow> map_of xs q = Some a \<Longrightarrow> p = q"
  shows "card (snd ` set xs) = length xs"
proof -
  have "inj_on snd (set xs)"
  proof (rule inj_onI)
    fix x y assume x: "x \<in> set xs" and y: "y \<in> set xs" and e: "snd x = snd y"
    from d x have "map_of xs (fst x) = Some (snd x)" by simp
    moreover from d y e have "map_of xs (fst y) = Some (snd x)" by simp
    ultimately have "fst x = fst y" by (rule inj)
    with e show "x = y" by (simp add: prod_eq_iff)
  qed
  then have "card (snd ` set xs) = card (set xs)" by (rule card_image)
  also have "\<dots> = length xs"
    using d by (simp add: distinct_card distinct_map)
  finally show ?thesis .
qed

lemma conta_simetrica:
  fixes xs :: "((nat \<times> nat) \<times> 'c) list"
  assumes d: "distinct (map fst xs)"
    and sym: "\<And>u v. map_of xs (u, v) = map_of xs (v, u)"
    and irr: "\<And>u. map_of xs (u, u) = None"
    and inj: "\<And>p q a. map_of xs p = Some a \<Longrightarrow> map_of xs q = Some a \<Longrightarrow> q = p \<or> q = prod.swap p"
  shows "length xs = 2 * card (snd ` set xs)"
proof -
  let ?f = "map_of xs"
  let ?D = "dom ?f"
  let ?D1 = "{p \<in> ?D. fst p < snd p}"
  let ?D2 = "{p \<in> ?D. snd p < fst p}"
  have fin: "finite ?D" by (rule finite_dom_map_of)
  have D: "?D = set (map fst xs)" by (simp add: dom_map_of_conv_image_fst)
  have len: "length xs = card ?D"
    using distinct_card [OF d] by (simp add: D)
  have nodiag: "\<And>p. p \<in> ?D \<Longrightarrow> fst p \<noteq> snd p"
  proof
    fix p assume "p \<in> ?D" and "fst p = snd p"
    then have "?f (fst p, fst p) \<noteq> None" by (cases p) auto
    with irr show False by simp
  qed
  have split: "?D = ?D1 \<union> ?D2" using nodiag by force
  have disj: "?D1 \<inter> ?D2 = {}" by auto
  have swap: "?D2 = prod.swap ` ?D1"
  proof (rule set_eqI)
    fix p :: "nat \<times> nat"
    obtain u v where p: "p = (u, v)" by (cases p)
    have "?f (u, v) = ?f (v, u)" by (rule sym)
    then show "p \<in> ?D2 \<longleftrightarrow> p \<in> prod.swap ` ?D1"
      by (auto simp: p image_iff dom_def)
  qed
  have "card ?D2 = card ?D1"
    unfolding swap by (rule card_image) (simp add: inj_on_def prod_eq_iff)
  moreover have "card ?D = card ?D1 + card ?D2"
    using fin disj by (subst split, intro card_Un_disjoint) (auto intro: finite_subset)
  ultimately have cD: "card ?D = 2 * card ?D1" by simp
  let ?g = "\<lambda>p. the (?f p)"
  have ran: "ran ?f = ?g ` ?D1"
  proof (rule set_eqI)
    fix a
    show "a \<in> ran ?f \<longleftrightarrow> a \<in> ?g ` ?D1"
    proof
      assume "a \<in> ran ?f"
      then obtain p where fp: "?f p = Some a" by (auto simp: ran_def)
      obtain u v where p: "p = (u, v)" by (cases p)
      from fp have pd: "p \<in> ?D" by auto
      from nodiag [OF pd] have "u < v \<or> v < u" by (auto simp: p)
      then show "a \<in> ?g ` ?D1"
      proof
        assume "u < v"
        with pd fp show ?thesis by (force simp: p image_iff)
      next
        assume vu: "v < u"
        have "?f (v, u) = Some a" using fp sym [of v u] by (simp add: p)
        with vu show ?thesis by (force simp: image_iff)
      qed
    next
      assume "a \<in> ?g ` ?D1"
      then obtain p where "p \<in> ?D" and "a = the (?f p)" by auto
      then have "?f p = Some a" by auto
      then show "a \<in> ran ?f" by (rule ranI)
    qed
  qed
  have "inj_on ?g ?D1"
  proof (rule inj_onI)
    fix p q assume p: "p \<in> ?D1" and q: "q \<in> ?D1" and e: "?g p = ?g q"
    from p obtain a where a: "?f p = Some a" by auto
    from q obtain b where b: "?f q = Some b" by auto
    from e a b have "?f q = Some a" by simp
    with a have "q = p \<or> q = prod.swap p" by (rule inj)
    moreover from p q have "q \<noteq> prod.swap p" by (cases p; cases q) auto
    ultimately show "p = q" by simp
  qed
  then have "card (?g ` ?D1) = card ?D1" by (rule card_image)
  with ran have "card (ran ?f) = card ?D1" by simp
  moreover have "ran ?f = snd ` set xs" using d by (simp add: ran_distinct)
  ultimately show ?thesis using len cD by simp
qed

subsection \<open>Invariants of the graphs built by calls\<close>

lemma inv_oposto_init: "inv_oposto (Grafo_init d)"
  by (simp add: inv_oposto_def Grafo_init_def novo_mapa_def celula_def Let_def)

lemma inv_oposto_criar_vertice: "inv_oposto s \<Longrightarrow> inv_oposto (snd (criar_vertice s x))"
  by (simp add: inv_oposto_def criar_vertice_def)

lemma inv_oposto_inserir_vertice:
  assumes "inv_oposto s"
  shows "inv_oposto (snd (inserir_vertice s x))"
  using assms
  by (simp add: inv_oposto_def inserir_vertice_frame inserir_vertice_saida celula_registrar)

lemma inv_oposto_inserir_aresta:
  assumes "inv_oposto s" "inv_base s"
  shows "inv_oposto (snd (inserir_aresta s u v x))"
proof -
  let ?s' = "snd (inserir_aresta s u v x)"
  have A: "aresta_em ?s' = (aresta_em s)(prox s \<mapsto> Aresta_init u v x)"
    by (rule inserir_aresta_frame(5))
  have o1: "oposto (Aresta_init u v x) u = v" and o2: "oposto (Aresta_init u v x) v = u"
    by (simp_all add: oposto_def Aresta_init_def)
  have "\<exists>A. aresta_em ?s' a = Some A \<and> oposto A u' = v'"
    if c: "celula (mapa_em ?s' (g_saida s)) u' v' = Some a" for u' v' a
  proof (cases "a = prox s")
    case True
    with c have "(u' = u \<and> v' = v) \<or> (u' = v \<and> v' = u)"
      using celula_fresca [OF assms(2), of u' v']
      by (auto simp: inserir_aresta_celula_geral split: if_splits)
    then show ?thesis using o1 o2 by (auto simp: A True)
  next
    case False
    with c have "celula (mapa_em s (g_saida s)) u' v' = Some a"
      by (auto simp: inserir_aresta_celula_geral split: if_splits)
    with assms(1) obtain B where "aresta_em s a = Some B" "oposto B u' = v'"
      unfolding inv_oposto_def by blast
    then show ?thesis using False by (simp add: A)
  qed
  then show ?thesis
    by (simp add: inv_oposto_def inserir_aresta_frame)
qed

lemma inv_oposto_executar: "inv_oposto s \<Longrightarrow> inv_base s \<Longrightarrow> inv_oposto (executar s c)"
  by (cases c)
     (simp_all add: inv_oposto_inserir_vertice inv_oposto_inserir_aresta inv_oposto_criar_vertice)

lemma inv_oposto_foldl:
  "inv_oposto s \<Longrightarrow> inv_base s \<Longrightarrow> inv_oposto (foldl executar s cs)"
  by (induction cs arbitrary: s) (simp_all add: inv_oposto_executar inv_base_executar)

lemma inv_oposto_construido: "inv_oposto (construido d cs)"
  by (simp add: construido_def inv_oposto_foldl inv_oposto_init inv_base_init)

lemma inv_dir_init: "inv_dir (Grafo_init d)"
  by (simp add: inv_dir_def Grafo_init_def novo_mapa_def celula_def Let_def)

lemma inv_dir_criar_vertice: "inv_dir s \<Longrightarrow> inv_dir (snd (criar_vertice s x))"
  by (simp add: inv_dir_def criar_vertice_def)

lemma inv_dir_inserir_vertice:
  assumes "inv_dir s" "inv_base s"
  shows "inv_dir (snd (inserir_vertice s x))"
proof -
  let ?ms = "mapa_em s (g_saida s)" and ?me = "mapa_em s (g_entrada s)"
  have cs: "\<And>u v. celula (mapa_em (snd (inserir_vertice s x)) (g_saida s)) u v =
              (if u = prox s then None else celula ?ms u v)"
    by (simp add: inserir_vertice_saida celula_registrar)
  have ce: "\<And>u v. celula (mapa_em (snd (inserir_vertice s x)) (g_entrada s)) u v =
              (if u = prox s then None else celula ?me u v)"
    by (simp add: inserir_vertice_entrada celula_registrar)
  have fr: "\<And>v. celula ?ms (prox s) v = None"
    using chave_fresca [OF assms(2)] by (simp add: celula_None_sem_chave)
  have 1: "celula ?ms u v \<noteq> None" if "celula ?me v u \<noteq> None" for u v
    using assms(1) that unfolding inv_dir_def by blast
  have 2: "u' = u \<and> v' = v" if "celula ?ms u v = Some a" "celula ?ms u' v' = Some a" for u v u' v' a
    using assms(1) that unfolding inv_dir_def by blast
  show ?thesis
    unfolding inv_dir_def inserir_vertice_frame cs ce
  proof (rule conjI)
    show "\<forall>u v. (if v = prox s then None else celula ?me v u) \<noteq> None \<longrightarrow>
                (if u = prox s then None else celula ?ms u v) \<noteq> None"
    proof (intro allI impI)
      fix u v assume "(if v = prox s then None else celula ?me v u) \<noteq> None"
      then have "celula ?me v u \<noteq> None" by (auto split: if_splits)
      then have c: "celula ?ms u v \<noteq> None" by (rule 1)
      with fr have "u \<noteq> prox s" by auto
      with c show "(if u = prox s then None else celula ?ms u v) \<noteq> None" by simp
    qed
  next
    show "\<forall>u v u' v' a. (if u = prox s then None else celula ?ms u v) = Some a \<longrightarrow>
            (if u' = prox s then None else celula ?ms u' v') = Some a \<longrightarrow> u' = u \<and> v' = v"
    proof (intro allI impI)
      fix u v u' v' a
      assume "(if u = prox s then None else celula ?ms u v) = Some a"
        and "(if u' = prox s then None else celula ?ms u' v') = Some a"
      then have "celula ?ms u v = Some a" "celula ?ms u' v' = Some a" by (auto split: if_splits)
      then show "u' = u \<and> v' = v" by (rule 2)
    qed
  qed
qed

lemma inv_dir_inserir_aresta:
  assumes "inv_dir s" "inv_base s" "e_direcionado s"
  shows "inv_dir (snd (inserir_aresta s u v x))"
proof -
  let ?ms = "mapa_em s (g_saida s)" and ?me = "mapa_em s (g_entrada s)"
  let ?W = "map_of ?ms u \<noteq> None" and ?W' = "map_of ?me v \<noteq> None"
  have cs: "\<And>u' v'. celula (mapa_em (snd (inserir_aresta s u v x)) (g_saida s)) u' v' =
              (if ?W \<and> u' = u \<and> v' = v then Some (prox s) else celula ?ms u' v')"
    using assms(3) by (auto simp: inserir_aresta_celula_geral)
  have ce: "\<And>u' v'. celula (mapa_em (snd (inserir_aresta s u v x)) (g_entrada s)) u' v' =
              (if ?W \<and> ?W' \<and> u' = v \<and> v' = u then Some (prox s) else celula ?me u' v')"
    using assms(3) by (rule inserir_aresta_celula_entrada_dir)
  have fr: "\<And>u' v'. celula ?ms u' v' \<noteq> Some (prox s)"
    using assms(2) by (rule celula_fresca)
  have 1: "celula ?ms u' v' \<noteq> None" if "celula ?me v' u' \<noteq> None" for u' v'
    using assms(1) that unfolding inv_dir_def by blast
  have 2: "u' = u1 \<and> v' = v1" if "celula ?ms u1 v1 = Some a" "celula ?ms u' v' = Some a" for u1 v1 u' v' a
    using assms(1) that unfolding inv_dir_def by blast
  show ?thesis
    unfolding inv_dir_def inserir_aresta_frame cs ce
  proof (rule conjI)
    show "\<forall>u' v'. (if ?W \<and> ?W' \<and> v' = v \<and> u' = u then Some (prox s) else celula ?me v' u') \<noteq> None \<longrightarrow>
            (if ?W \<and> u' = u \<and> v' = v then Some (prox s) else celula ?ms u' v') \<noteq> None"
    proof (intro allI impI)
      fix u' v'
      assume h: "(if ?W \<and> ?W' \<and> v' = v \<and> u' = u then Some (prox s) else celula ?me v' u') \<noteq> None"
      show "(if ?W \<and> u' = u \<and> v' = v then Some (prox s) else celula ?ms u' v') \<noteq> None"
      proof (cases "?W \<and> u' = u \<and> v' = v")
        case True
        then show ?thesis by simp
      next
        case False
        with h have "celula ?me v' u' \<noteq> None" by (auto split: if_splits)
        then have "celula ?ms u' v' \<noteq> None" by (rule 1)
        with False show ?thesis by auto
      qed
    qed
  next
    show "\<forall>u1 v1 u' v' a.
            (if ?W \<and> u1 = u \<and> v1 = v then Some (prox s) else celula ?ms u1 v1) = Some a \<longrightarrow>
            (if ?W \<and> u' = u \<and> v' = v then Some (prox s) else celula ?ms u' v') = Some a \<longrightarrow>
            u' = u1 \<and> v' = v1"
    proof (intro allI impI)
      fix u1 v1 u' v' a
      assume h1: "(if ?W \<and> u1 = u \<and> v1 = v then Some (prox s) else celula ?ms u1 v1) = Some a"
        and h2: "(if ?W \<and> u' = u \<and> v' = v then Some (prox s) else celula ?ms u' v') = Some a"
      show "u' = u1 \<and> v' = v1"
      proof (cases "a = prox s")
        case True
        with h1 fr [of u1 v1] have "u1 = u \<and> v1 = v" by (auto split: if_splits)
        moreover from True h2 fr [of u' v'] have "u' = u \<and> v' = v" by (auto split: if_splits)
        ultimately show ?thesis by simp
      next
        case False
        with h1 have "celula ?ms u1 v1 = Some a" by (auto split: if_splits)
        moreover from False h2 have "celula ?ms u' v' = Some a" by (auto split: if_splits)
        ultimately show ?thesis by (rule 2)
      qed
    qed
  qed
qed

lemma inv_dir_executar:
  "inv_dir s \<Longrightarrow> inv_base s \<Longrightarrow> e_direcionado s \<Longrightarrow> inv_dir (executar s c)"
  by (cases c)
     (simp_all add: inv_dir_inserir_vertice inv_dir_inserir_aresta inv_dir_criar_vertice)

lemma inv_dir_foldl:
  "inv_dir s \<Longrightarrow> inv_base s \<Longrightarrow> e_direcionado s \<Longrightarrow> inv_dir (foldl executar s cs)"
  by (induction cs arbitrary: s)
     (simp_all add: inv_dir_executar inv_base_executar e_direcionado_executar)

lemma inv_dir_construido: "inv_dir (construido True cs)"
  by (simp add: construido_def inv_dir_foldl inv_dir_init inv_base_init e_direcionado_init)

lemma inv_nd_init: "inv_nd (Grafo_init d)"
  by (simp add: inv_nd_def Grafo_init_def novo_mapa_def celula_def Let_def)

lemma inv_nd_criar_vertice: "inv_nd s \<Longrightarrow> inv_nd (snd (criar_vertice s x))"
  by (simp add: inv_nd_def criar_vertice_def)

lemma inv_nd_inserir_vertice:
  assumes "inv_nd s" "inv_base s"
  shows "inv_nd (snd (inserir_vertice s x))"
proof -
  let ?ms = "mapa_em s (g_saida s)"
  have cs: "\<And>u v. celula (mapa_em (snd (inserir_vertice s x)) (g_saida s)) u v =
              (if u = prox s then None else celula ?ms u v)"
    by (simp add: inserir_vertice_saida celula_registrar)
  have fr: "\<And>v. celula ?ms (prox s) v = None"
    using chave_fresca [OF assms(2)] by (simp add: celula_None_sem_chave)
  have sym: "\<And>u v. celula ?ms u v = celula ?ms v u"
    using assms(1) unfolding inv_nd_def by blast
  have irr: "\<And>u. celula ?ms u u = None"
    using assms(1) unfolding inv_nd_def by blast
  have inj: "(u' = u \<and> v' = v) \<or> (u' = v \<and> v' = u)"
    if "celula ?ms u v = Some a" "celula ?ms u' v' = Some a" for u v u' v' a
    using assms(1) that unfolding inv_nd_def by blast
  show ?thesis
    unfolding inv_nd_def inserir_vertice_frame cs
  proof (intro conjI)
    show "\<forall>u v. (if u = prox s then None else celula ?ms u v) =
                 (if v = prox s then None else celula ?ms v u)"
    proof (intro allI)
      fix u v
      show "(if u = prox s then None else celula ?ms u v) =
            (if v = prox s then None else celula ?ms v u)"
      proof (cases "u = prox s")
        case True
        then show ?thesis using fr [of v] sym [of v "prox s"] by simp
      next
        case False
        then show ?thesis using fr [of u] sym [of u v] by simp
      qed
    qed
    show "\<forall>u. (if u = prox s then None else celula ?ms u u) = None"
      using irr by simp
    show "\<forall>u v u' v' a. (if u = prox s then None else celula ?ms u v) = Some a \<longrightarrow>
            (if u' = prox s then None else celula ?ms u' v') = Some a \<longrightarrow>
            u' = u \<and> v' = v \<or> u' = v \<and> v' = u"
    proof (intro allI impI)
      fix u v u' v' a
      assume "(if u = prox s then None else celula ?ms u v) = Some a"
        and "(if u' = prox s then None else celula ?ms u' v') = Some a"
      then have "celula ?ms u v = Some a" "celula ?ms u' v' = Some a" by (auto split: if_splits)
      then show "u' = u \<and> v' = v \<or> u' = v \<and> v' = u" by (rule inj)
    qed
  qed
qed

lemma se_Some_igual:
  "(if C then Some p else c) = Some a \<Longrightarrow> a = p \<Longrightarrow> c \<noteq> Some p \<Longrightarrow> C"
  by (cases C) simp_all

lemma se_Some_outro:
  "(if C then Some p else c) = Some a \<Longrightarrow> a \<noteq> p \<Longrightarrow> c = Some a"
  by (cases C) simp_all

lemma inv_nd_inserir_aresta:
  assumes "inv_nd s" "inv_base s" "\<not> e_direcionado s"
    "u \<noteq> v" "u \<in> set (vertices s)" "v \<in> set (vertices s)"
  shows "inv_nd (snd (inserir_aresta s u v x))"
proof -
  let ?ms = "mapa_em s (g_saida s)"
  from assms(3) have eq: "g_entrada s = g_saida s" by (simp add: e_direcionado_def)
  from assms(5,6) have ku: "map_of ?ms u \<noteq> None" and kv: "map_of ?ms v \<noteq> None"
    by (simp_all add: vertices_iff)
  have ok: "fst (inserir_aresta s u v x) = Inr (prox s)"
    using ku kv by (intro inserir_aresta_sucesso) (simp_all add: eq)
  have cs: "\<And>u' v'. celula (mapa_em (snd (inserir_aresta s u v x)) (g_saida s)) u' v' =
              (if (u' = u \<and> v' = v) \<or> (u' = v \<and> v' = u) then Some (prox s) else celula ?ms u' v')"
    using inserir_aresta_celula_saida [OF ok] assms(3) by simp
  have fr: "\<And>u' v'. celula ?ms u' v' \<noteq> Some (prox s)"
    using assms(2) by (rule celula_fresca)
  have sym: "\<And>u v. celula ?ms u v = celula ?ms v u"
    using assms(1) unfolding inv_nd_def by blast
  have irr: "\<And>u. celula ?ms u u = None"
    using assms(1) unfolding inv_nd_def by blast
  have inj: "(u' = u1 \<and> v' = v1) \<or> (u' = v1 \<and> v' = u1)"
    if "celula ?ms u1 v1 = Some a" "celula ?ms u' v' = Some a" for u1 v1 u' v' a
    using assms(1) that unfolding inv_nd_def by blast
  show ?thesis
    unfolding inv_nd_def inserir_aresta_frame cs
  proof (intro conjI)
    show "\<forall>u' v'. (if u' = u \<and> v' = v \<or> u' = v \<and> v' = u then Some (prox s) else celula ?ms u' v') =
                   (if v' = u \<and> u' = v \<or> v' = v \<and> u' = u then Some (prox s) else celula ?ms v' u')"
    proof (intro allI)
      fix u' v'
      have c: "(v' = u \<and> u' = v \<or> v' = v \<and> u' = u) = (u' = u \<and> v' = v \<or> u' = v \<and> v' = u)"
        by blast
      show "(if u' = u \<and> v' = v \<or> u' = v \<and> v' = u then Some (prox s) else celula ?ms u' v') =
            (if v' = u \<and> u' = v \<or> v' = v \<and> u' = u then Some (prox s) else celula ?ms v' u')"
        by (simp only: c sym [of u' v'])
    qed
    show "\<forall>w. (if w = u \<and> w = v \<or> w = v \<and> w = u then Some (prox s) else celula ?ms w w) = None"
    proof (intro allI)
      fix w
      have "\<not> (w = u \<and> w = v \<or> w = v \<and> w = u)" using assms(4) by blast
      then show "(if w = u \<and> w = v \<or> w = v \<and> w = u then Some (prox s) else celula ?ms w w) = None"
        by (simp only: if_False irr)
    qed
    show "\<forall>u1 v1 u' v' a.
            (if u1 = u \<and> v1 = v \<or> u1 = v \<and> v1 = u then Some (prox s) else celula ?ms u1 v1) = Some a \<longrightarrow>
            (if u' = u \<and> v' = v \<or> u' = v \<and> v' = u then Some (prox s) else celula ?ms u' v') = Some a \<longrightarrow>
            u' = u1 \<and> v' = v1 \<or> u' = v1 \<and> v' = u1"
    proof (intro allI impI)
      fix u1 v1 u' v' a
      assume h1: "(if u1 = u \<and> v1 = v \<or> u1 = v \<and> v1 = u then Some (prox s) else celula ?ms u1 v1) = Some a"
        and h2: "(if u' = u \<and> v' = v \<or> u' = v \<and> v' = u then Some (prox s) else celula ?ms u' v') = Some a"
      show "u' = u1 \<and> v' = v1 \<or> u' = v1 \<and> v' = u1"
      proof (cases "a = prox s")
        case True
        have "u1 = u \<and> v1 = v \<or> u1 = v \<and> v1 = u"
          using h1 True fr by (rule se_Some_igual)
        moreover have "u' = u \<and> v' = v \<or> u' = v \<and> v' = u"
          using h2 True fr by (rule se_Some_igual)
        ultimately show ?thesis by blast
      next
        case False
        have "celula ?ms u1 v1 = Some a" using h1 False by (rule se_Some_outro)
        moreover have "celula ?ms u' v' = Some a" using h2 False by (rule se_Some_outro)
        ultimately show ?thesis by (rule inj)
      qed
    qed
  qed
qed

lemma inv_nd_executar:
  "inv_nd s \<Longrightarrow> inv_base s \<Longrightarrow> \<not> e_direcionado s \<Longrightarrow> chamada_simples s c \<Longrightarrow>
   inv_nd (executar s c)"
  by (cases c)
     (simp_all add: inv_nd_inserir_vertice inv_nd_inserir_aresta inv_nd_criar_vertice)

lemma inv_nd_foldl:
  "inv_nd s \<Longrightarrow> inv_base s \<Longrightarrow> \<not> e_direcionado s \<Longrightarrow> chamadas_simples s cs \<Longrightarrow>
   inv_nd (foldl executar s cs)"
  by (induction cs arbitrary: s)
     (simp_all add: inv_nd_executar inv_base_executar e_direcionado_executar)

lemma inv_nd_construido:
  "chamadas_simples (Grafo_init False) cs \<Longrightarrow> inv_nd (construido False cs)"
  by (simp add: construido_def inv_nd_foldl inv_nd_init inv_base_init e_direcionado_init)

lemma prox_executar: "prox s \<le> prox (executar s c)"
  by (cases c) (simp_all add: inserir_aresta_frame inserir_vertice_frame criar_vertice_frame)

lemma prox_foldl: "prox s \<le> prox (foldl executar s cs)"
proof (induction cs arbitrary: s)
  case Nil
  then show ?case by simp
next
  case (Cons c cs)
  have "prox s \<le> prox (executar s c)" by (rule prox_executar)
  also have "\<dots> \<le> prox (foldl executar (executar s c) cs)" by (rule Cons.IH)
  finally show ?case by simp
qed

lemma aresta_em_executar: "a < prox s \<Longrightarrow> aresta_em (executar s c) a = aresta_em s a"
  by (cases c) (simp_all add: inserir_aresta_frame inserir_vertice_frame criar_vertice_frame)

lemma aresta_em_foldl: "a < prox s \<Longrightarrow> aresta_em (foldl executar s cs) a = aresta_em s a"
proof (induction cs arbitrary: s)
  case Nil
  then show ?case by simp
next
  case (Cons c cs)
  have "a < prox (executar s c)" using Cons.prems prox_executar [of s c] by simp
  then have "aresta_em (foldl executar (executar s c) cs) a = aresta_em (executar s c) a"
    by (rule Cons.IH)
  then show ?case using Cons.prems by (simp add: aresta_em_executar)
qed

subsection \<open>Counting edges\<close>

text \<open>
  C1 (as amended). In a directed graph built by any sequence of calls, and in a graph
  without direction built by calls whose every \<open>inserir_aresta\<close> joins two distinct
  vertices of the graph, \<open>num_arestas\<close> is the number of distinct edges in \<open>arestas\<close>.
\<close>

theorem num_arestas_conta_arestas:
  assumes "d \<or> chamadas_simples (Grafo_init d) cs"
  shows "num_arestas (construido d cs) = card (set (arestas hi ht (construido d cs))) \<and>
         num_arestas (construido d cs) = length (arestas hi ht (construido d cs))"
proof -
  let ?s = "construido d cs"
  let ?ms = "mapa_em ?s (g_saida ?s)"
  let ?xs = "entradas ?ms"
  have base: "inv_base ?s" by (rule inv_base_construido)
  then have cd: "chaves_distintas ?ms" by (simp add: inv_base_def)
  then have dm: "distinct (map fst ?ms)" by (simp add: chaves_distintas_def)
  have dx: "distinct (map fst ?xs)" using cd by (rule distinct_entradas)
  have mo: "\<And>u v. map_of ?xs (u, v) = celula ?ms u v" using dm by (rule map_of_entradas)
  have dir: "e_direcionado ?s = d"
    by (simp add: construido_def e_direcionado_foldl e_direcionado_init)
  have "num_arestas ?s = card (set (arestas hi ht ?s))"
  proof (cases d)
    case True
    then have "inv_dir ?s" by (simp add: inv_dir_construido)
    then have inj: "\<And>u v u' v' a. celula ?ms u v = Some a \<Longrightarrow> celula ?ms u' v' = Some a \<Longrightarrow>
                      u' = u \<and> v' = v"
      unfolding inv_dir_def by blast
    have "card (snd ` set ?xs) = length ?xs"
    proof (rule conta_injetiva [OF dx])
      fix p q :: "ref \<times> ref" and a
      obtain u v where p: "p = (u, v)" by (cases p)
      obtain u' v' where q: "q = (u', v')" by (cases q)
      assume "map_of ?xs p = Some a" "map_of ?xs q = Some a"
      then have "celula ?ms u v = Some a" "celula ?ms u' v' = Some a"
        unfolding p q mo by simp_all
      then have "u' = u \<and> v' = v" by (rule inj)
      then show "p = q" unfolding p q by blast
    qed
    then show ?thesis using True dir by (simp add: num_arestas_entradas arestas_entradas)
  next
    case False
    with assms have "chamadas_simples (Grafo_init False) cs" by simp
    then have "inv_nd (construido False cs)" by (rule inv_nd_construido)
    with False have nd: "inv_nd ?s" by simp
    have sym: "\<And>u v. celula ?ms u v = celula ?ms v u"
      using nd unfolding inv_nd_def by blast
    have irr: "\<And>u. celula ?ms u u = None"
      using nd unfolding inv_nd_def by blast
    have inj: "(u' = u \<and> v' = v) \<or> (u' = v \<and> v' = u)"
      if "celula ?ms u v = Some a" "celula ?ms u' v' = Some a" for u v u' v' a
      using nd that unfolding inv_nd_def by blast
    have "length ?xs = 2 * card (snd ` set ?xs)"
    proof (rule conta_simetrica [OF dx])
      show "\<And>u v. map_of ?xs (u, v) = map_of ?xs (v, u)" unfolding mo by (rule sym)
      show "\<And>u. map_of ?xs (u, u) = None" unfolding mo by (rule irr)
      fix p q :: "ref \<times> ref" and a
      obtain u v where p: "p = (u, v)" by (cases p)
      obtain u' v' where q: "q = (u', v')" by (cases q)
      assume "map_of ?xs p = Some a" "map_of ?xs q = Some a"
      then have "celula ?ms u v = Some a" "celula ?ms u' v' = Some a"
        unfolding p q mo by simp_all
      then have "(u' = u \<and> v' = v) \<or> (u' = v \<and> v' = u)" by (rule inj)
      then show "q = p \<or> q = prod.swap p" unfolding p q swap_simp prod.inject .
    qed
    then show ?thesis using False dir by (simp add: num_arestas_entradas arestas_entradas)
  qed
  moreover have "card (set (arestas hi ht ?s)) = length (arestas hi ht ?s)"
    using arestas_distinct by (rule distinct_card)
  ultimately show ?thesis by simp
qed

theorem num_arestas_conta_arestas_witness:
  "chamadas_simples (Grafo_init False) (chamadas_exemplo :: (string, unit option) chamada list) \<and>
   num_arestas (construido False (chamadas_exemplo :: (string, unit option) chamada list)) = 4 \<and>
   length (arestas int sum_list (construido False (chamadas_exemplo :: (string, unit option) chamada list))) = 4"
proof -
  let ?cs = "chamadas_exemplo :: (string, unit option) chamada list"
  have h: "chamadas_simples (Grafo_init False) ?cs"
    by (simp add: chamadas_exemplo_def avaliar)
  have n: "num_arestas (construido False ?cs) = 4"
    by (simp add: chamadas_exemplo_def avaliar)
  from num_arestas_conta_arestas [of False ?cs int sum_list] h n show ?thesis
    by simp
qed

text \<open>C1 as stated fails in a graph without direction on a loop, and on an
  \<open>inserir_aresta\<close> towards a vertex outside the graph, which raises after its first
  write: either way the edge takes one place of the dict, so the halved total is 0 while
  \<open>arestas\<close> holds one edge.\<close>

theorem num_arestas_laco_counterexample:
  "\<not> e_direcionado grafo_laco \<and>
   num_arestas grafo_laco = 0 \<and> card (set (arestas int sum_list grafo_laco)) = 1 \<and>
   \<not> e_direcionado grafo_meia \<and> vertices grafo_meia = [1] \<and>
   num_arestas grafo_meia = 0 \<and> card (set (arestas int sum_list grafo_meia)) = 1"
  by (simp add: grafo_laco_def grafo_meia_def avaliar)

subsection \<open>Degrees in graphs without direction\<close>

text \<open>
  C2 (as amended). In a graph without direction, \<open>inserir_aresta\<close> on two of its vertices
  \<open>u\<close> and \<open>v\<close> returns an edge which \<open>aresta u v\<close> and \<open>aresta v u\<close> both return afterwards;
  the degree of \<open>u\<close> grows by one when \<open>aresta u v\<close> was absent before and is unchanged
  otherwise, and likewise the degree of \<open>v\<close> with \<open>aresta v u\<close>.
\<close>

theorem grau_apos_inserir_nao_direcionado:
  assumes "s = construido False cs" "u \<in> set (vertices s)" "v \<in> set (vertices s)"
  shows "\<exists>a s' nu nv.
           inserir_aresta s u v x = (Inr a, s') \<and>
           aresta s' u v = Inr (Some a) \<and> aresta s' v u = Inr (Some a) \<and>
           grau s u True = Inr nu \<and> grau s v True = Inr nv \<and>
           grau s' u True = Inr (if aresta s u v = Inr None then Suc nu else nu) \<and>
           grau s' v True = Inr (if aresta s v u = Inr None then Suc nv else nv)"
proof -
  let ?ms = "mapa_em s (g_saida s)"
  let ?s' = "snd (inserir_aresta s u v x)"
  let ?ms' = "mapa_em ?s' (g_saida s)"
  have base: "inv_base s" by (simp add: assms(1) inv_base_construido)
  have nd: "\<not> e_direcionado s"
    by (simp add: assms(1) construido_def e_direcionado_foldl e_direcionado_init)
  then have eq: "g_entrada s = g_saida s" by (simp add: e_direcionado_def)
  from assms(2,3) have ku: "map_of ?ms u \<noteq> None" and kv: "map_of ?ms v \<noteq> None"
    by (simp_all add: vertices_iff)
  have ok: "fst (inserir_aresta s u v x) = Inr (prox s)"
    using ku kv by (intro inserir_aresta_sucesso) (simp_all add: eq)
  have base': "inv_base ?s'" using base by (rule inv_base_inserir_aresta)
  have gs: "g_saida ?s' = g_saida s" by (rule inserir_aresta_frame(1))
  have ku': "map_of ?ms' u \<noteq> None" and kv': "map_of ?ms' v \<noteq> None"
    using ku kv by (simp_all add: inserir_aresta_chaves)
  have cel: "\<And>u' v'. celula ?ms' u' v' =
               (if (u' = u \<and> v' = v) \<or> (u' = v \<and> v' = u) then Some (prox s) else celula ?ms u' v')"
    using inserir_aresta_celula_saida [OF ok] nd by simp
  have a1: "aresta ?s' u v = Inr (Some (prox s))"
    using aresta_celula [of ?s' u v] ku' cel by (simp add: gs)
  have a2: "aresta ?s' v u = Inr (Some (prox s))"
    using aresta_celula [of ?s' v u] kv' cel by (simp add: gs)
  have b1: "aresta s u v = Inr (celula ?ms u v)" using ku by (rule aresta_celula)
  have b2: "aresta s v u = Inr (celula ?ms v u)" using kv by (rule aresta_celula)
  let ?Nu = "{w. celula ?ms u w \<noteq> None}"
  let ?Nv = "{w. celula ?ms v w \<noteq> None}"
  have g1: "grau s u True = Inr (card ?Nu)" using base ku by (rule grau_saida)
  have g2: "grau s v True = Inr (card ?Nv)" using base kv by (rule grau_saida)
  have "{w. celula ?ms' u w \<noteq> None} = insert v ?Nu" by (auto simp: cel)
  moreover have "grau ?s' u True = Inr (card {w. celula ?ms' u w \<noteq> None})"
    using grau_saida [OF base', of u] ku' by (simp add: gs)
  ultimately have g1': "grau ?s' u True = Inr (if aresta s u v = Inr None then Suc (card ?Nu) else card ?Nu)"
    using finite_vizinhos [of ?ms u] by (auto simp: b1 card_insert_if)
  have "{w. celula ?ms' v w \<noteq> None} = insert u ?Nv" by (auto simp: cel)
  moreover have "grau ?s' v True = Inr (card {w. celula ?ms' v w \<noteq> None})"
    using grau_saida [OF base', of v] kv' by (simp add: gs)
  ultimately have g2': "grau ?s' v True = Inr (if aresta s v u = Inr None then Suc (card ?Nv) else card ?Nv)"
    using finite_vizinhos [of ?ms v] by (auto simp: b2 card_insert_if)
  have "inserir_aresta s u v x = (Inr (prox s), ?s')"
    using ok by (simp add: prod_eq_iff)
  with a1 a2 g1 g2 g1' g2' show ?thesis by blast
qed

theorem grau_apos_inserir_nao_direcionado_witness:
  "1 \<in> set (vertices (grafo_ab False)) \<and> 2 \<in> set (vertices (grafo_ab False)) \<and>
   aresta (grafo_ab False) 1 2 = Inr None \<and> aresta (grafo_ab False) 2 1 = Inr None \<and>
   grau (grafo_ab False) 1 True = Inr 0 \<and> grau (grafo_ab False) 2 True = Inr 0 \<and>
   (\<exists>a s'. inserir_aresta (grafo_ab False) 1 2 ''p'' = (Inr a, s') \<and>
      aresta s' 1 2 = Inr (Some a) \<and> aresta s' 2 1 = Inr (Some a) \<and>
      grau s' 1 True = Inr 1 \<and> grau s' 2 True = Inr 1)"
proof -
  have h1: "grafo_ab False = construido False [InserirVertice ''a'', InserirVertice ''b'', CriarVertice ''c'']"
    by (simp add: grafo_ab_def)
  have h2: "1 \<in> set (vertices (grafo_ab False))" and h3: "2 \<in> set (vertices (grafo_ab False))"
    by (simp_all add: grafo_ab_def avaliar)
  have e: "aresta (grafo_ab False) 1 2 = Inr None" "aresta (grafo_ab False) 2 1 = Inr None"
    "grau (grafo_ab False) 1 True = Inr 0" "grau (grafo_ab False) 2 True = Inr 0"
    by (simp_all add: grafo_ab_def avaliar)
  from grau_apos_inserir_nao_direcionado [OF h1 h2 h3, of "''p''"] obtain a s' nu nv where
    r: "inserir_aresta (grafo_ab False) 1 2 ''p'' = (Inr a, s')"
      "aresta s' 1 2 = Inr (Some a)" "aresta s' 2 1 = Inr (Some a)"
      "grau (grafo_ab False) 1 True = Inr nu" "grau (grafo_ab False) 2 True = Inr nv"
      "grau s' 1 True = Inr (if aresta (grafo_ab False) 1 2 = Inr None then Suc nu else nu)"
      "grau s' 2 True = Inr (if aresta (grafo_ab False) 2 1 = Inr None then Suc nv else nv)"
    by blast
  from r(4,5) e(3,4) have "nu = 0" "nv = 0" by simp_all
  with r(6,7) e(1,2) have "grau s' 1 True = Inr 1" "grau s' 2 True = Inr 1" by simp_all
  with r(1-3) h2 h3 e show ?thesis by blast
qed

text \<open>C2 as stated fails when the edge is inserted a second time: the first edge is
  replaced and both degrees stay 1.\<close>

theorem grau_reinsercao_counterexample:
  "\<not> e_direcionado (snd (inserir_aresta (grafo_ab False) 1 2 ''p'')) \<and>
   vertices (snd (inserir_aresta (grafo_ab False) 1 2 ''p'')) = [1, 2] \<and>
   grau (snd (inserir_aresta (grafo_ab False) 1 2 ''p'')) 1 True = Inr 1 \<and>
   grau (snd (inserir_aresta (grafo_ab False) 1 2 ''p'')) 2 True = Inr 1 \<and>
   fst (inserir_aresta (snd (inserir_aresta (grafo_ab False) 1 2 ''p'')) 1 2 ''q'') = Inr 5 \<and>
   grau (snd (inserir_aresta (snd (inserir_aresta (grafo_ab False) 1 2 ''p'')) 1 2 ''q'')) 1 True = Inr 1 \<and>
   grau (snd (inserir_aresta (snd (inserir_aresta (grafo_ab False) 1 2 ''p'')) 1 2 ''q'')) 2 True = Inr 1"
  by (simp add: grafo_ab_def avaliar)

subsection \<open>Degrees in directed graphs\<close>

text \<open>
  C3 (as amended). In a directed graph, \<open>inserir_aresta\<close> on two of its vertices \<open>u\<close> and
  \<open>v\<close> with no edge from \<open>u\<close> to \<open>v\<close> yet grows the outgoing degree of \<open>u\<close> and the incoming
  degree of \<open>v\<close> by one, and leaves the incoming degree of \<open>u\<close> unchanged when \<open>u\<close> and
  \<open>v\<close> are distinct.
\<close>

theorem grau_apos_inserir_direcionado:
  assumes "s = construido True cs" "u \<in> set (vertices s)" "v \<in> set (vertices s)"
    "aresta s u v = Inr None"
  shows "\<exists>a s' n m k.
           inserir_aresta s u v x = (Inr a, s') \<and>
           grau s u True = Inr n \<and> grau s' u True = Inr (Suc n) \<and>
           grau s v False = Inr m \<and> grau s' v False = Inr (Suc m) \<and>
           grau s u False = Inr k \<and> (u \<noteq> v \<longrightarrow> grau s' u False = Inr k)"
proof -
  let ?ms = "mapa_em s (g_saida s)" and ?me = "mapa_em s (g_entrada s)"
  let ?s' = "snd (inserir_aresta s u v x)"
  let ?ms' = "mapa_em ?s' (g_saida s)" and ?me' = "mapa_em ?s' (g_entrada s)"
  have base: "inv_base s" by (simp add: assms(1) inv_base_construido)
  have dir: "e_direcionado s" by (simp add: assms(1) e_direcionado_construido)
  have idir: "inv_dir s" by (simp add: assms(1) inv_dir_construido)
  from assms(2,3) have ku: "map_of ?ms u \<noteq> None" and kv: "map_of ?ms v \<noteq> None"
    by (simp_all add: vertices_iff)
  have eu: "map_of ?me u \<noteq> None" and ev: "map_of ?me v \<noteq> None"
    using ku kv by (simp_all add: chaves_entrada [OF base])
  have ok: "fst (inserir_aresta s u v x) = Inr (prox s)"
    using ku ev by (rule inserir_aresta_sucesso)
  have base': "inv_base ?s'" using base by (rule inv_base_inserir_aresta)
  have fr: "g_saida ?s' = g_saida s" "g_entrada ?s' = g_entrada s"
    by (simp_all add: inserir_aresta_frame)
  have ku': "map_of ?ms' u \<noteq> None" using ku by (simp add: inserir_aresta_chaves)
  have eu': "map_of ?me' u \<noteq> None" and ev': "map_of ?me' v \<noteq> None"
    using eu ev by (simp_all add: inserir_aresta_chaves)
  have cs: "\<And>u' v'. celula ?ms' u' v' =
              (if u' = u \<and> v' = v then Some (prox s) else celula ?ms u' v')"
    using inserir_aresta_celula_saida [OF ok] dir by simp
  have ce: "\<And>u' v'. celula ?me' u' v' =
              (if u' = v \<and> v' = u then Some (prox s) else celula ?me u' v')"
    using inserir_aresta_celula_entrada [OF ok] dir by simp
  have nuv: "celula ?ms u v = None"
    using assms(4) aresta_celula [OF ku, of v] by simp
  have nvu: "celula ?me v u = None"
    using idir nuv unfolding inv_dir_def by blast
  let ?Nu = "{w. celula ?ms u w \<noteq> None}"
  let ?Mv = "{w. celula ?me v w \<noteq> None}"
  let ?Mu = "{w. celula ?me u w \<noteq> None}"
  have g1: "grau s u True = Inr (card ?Nu)" using base ku by (rule grau_saida)
  have g2: "grau s v False = Inr (card ?Mv)" using base ev by (rule grau_entrada)
  have g3: "grau s u False = Inr (card ?Mu)" using base eu by (rule grau_entrada)
  have "{w. celula ?ms' u w \<noteq> None} = insert v ?Nu" by (auto simp: cs)
  moreover have "grau ?s' u True = Inr (card {w. celula ?ms' u w \<noteq> None})"
    using grau_saida [OF base', of u] ku' by (simp add: fr)
  ultimately have g1': "grau ?s' u True = Inr (Suc (card ?Nu))"
    using card_vizinhos_novo [OF nuv] by simp
  have "{w. celula ?me' v w \<noteq> None} = insert u ?Mv" by (auto simp: ce)
  moreover have "grau ?s' v False = Inr (card {w. celula ?me' v w \<noteq> None})"
    using grau_entrada [OF base', of v] ev' by (simp add: fr)
  ultimately have g2': "grau ?s' v False = Inr (Suc (card ?Mv))"
    using card_vizinhos_novo [OF nvu] by simp
  have g3': "grau ?s' u False = Inr (card ?Mu)" if "u \<noteq> v"
  proof -
    have "{w. celula ?me' u w \<noteq> None} = ?Mu" using that by (simp add: ce)
    moreover have "grau ?s' u False = Inr (card {w. celula ?me' u w \<noteq> None})"
      using grau_entrada [OF base', of u] eu' by (simp add: fr)
    ultimately show ?thesis by simp
  qed
  have "inserir_aresta s u v x = (Inr (prox s), ?s')"
    using ok by (simp add: prod_eq_iff)
  with g1 g2 g3 g1' g2' g3' show ?thesis by blast
qed

theorem grau_apos_inserir_direcionado_witness:
  "2 \<in> set (vertices (grafo_ab True)) \<and> 3 \<in> set (vertices (grafo_ab True)) \<and>
   aresta (grafo_ab True) 2 3 = Inr None \<and>
   grau (grafo_ab True) 2 True = Inr 0 \<and> grau (grafo_ab True) 3 False = Inr 0 \<and>
   grau (grafo_ab True) 2 False = Inr 0 \<and>
   (\<exists>a s'. inserir_aresta (grafo_ab True) 2 3 ''p'' = (Inr a, s') \<and>
      grau s' 2 True = Inr 1 \<and> grau s' 3 False = Inr 1 \<and> grau s' 2 False = Inr 0)"
proof -
  have h1: "grafo_ab True = construido True [InserirVertice ''a'', InserirVertice ''b'', CriarVertice ''c'']"
    by (simp add: grafo_ab_def)
  have h2: "2 \<in> set (vertices (grafo_ab True))" and h3: "3 \<in> set (vertices (grafo_ab True))"
    and h4: "aresta (grafo_ab True) 2 3 = Inr None"
    by (simp_all add: grafo_ab_def avaliar)
  have e: "grau (grafo_ab True) 2 True = Inr 0" "grau (grafo_ab True) 3 False = Inr 0"
    "grau (grafo_ab True) 2 False = Inr 0"
    by (simp_all add: grafo_ab_def avaliar)
  from grau_apos_inserir_direcionado [OF h1 h2 h3 h4, of "''p''"] obtain a s' n m k where
    r: "inserir_aresta (grafo_ab True) 2 3 ''p'' = (Inr a, s')"
      "grau (grafo_ab True) 2 True = Inr n" "grau s' 2 True = Inr (Suc n)"
      "grau (grafo_ab True) 3 False = Inr m" "grau s' 3 False = Inr (Suc m)"
      "grau (grafo_ab True) 2 False = Inr k" "(2::nat) \<noteq> 3 \<longrightarrow> grau s' 2 False = Inr k"
    by blast
  from r(2,4,6) e have "n = 0" "m = 0" "k = 0" by simp_all
  with r(3,5,7) have "grau s' 2 True = Inr 1" "grau s' 3 False = Inr 1" "grau s' 2 False = Inr 0"
    by simp_all
  with r(1) h2 h3 h4 e show ?thesis by blast
qed

text \<open>C3 as stated fails when the edge from \<open>u\<close> to \<open>v\<close> is inserted a second time (the
  degrees stay 1), and at \<open>u = v\<close> (the incoming degree of \<open>u\<close> grows from 0 to 1).\<close>

theorem grau_direcionado_counterexample:
  "e_direcionado (grafo_ab True) \<and> vertices (grafo_ab True) = [2, 3] \<and>
   grau (snd (inserir_aresta (grafo_ab True) 2 3 ''p'')) 2 True = Inr 1 \<and>
   grau (snd (inserir_aresta (grafo_ab True) 2 3 ''p'')) 3 False = Inr 1 \<and>
   fst (inserir_aresta (snd (inserir_aresta (grafo_ab True) 2 3 ''p'')) 2 3 ''q'') = Inr 6 \<and>
   grau (snd (inserir_aresta (snd (inserir_aresta (grafo_ab True) 2 3 ''p'')) 2 3 ''q'')) 2 True = Inr 1 \<and>
   grau (snd (inserir_aresta (snd (inserir_aresta (grafo_ab True) 2 3 ''p'')) 2 3 ''q'')) 3 False = Inr 1 \<and>
   grau (grafo_ab True) 2 False = Inr 0 \<and>
   fst (inserir_aresta (grafo_ab True) 2 2 ''p'') = Inr 5 \<and>
   grau (snd (inserir_aresta (grafo_ab True) 2 2 ''p'')) 2 False = Inr 1"
  by (simp add: grafo_ab_def avaliar)

subsection \<open>Hash and equality of edges\<close>

text \<open>
  C4 (as amended). Two edges returned by separate \<open>inserir_aresta\<close> calls with the same
  origin and destination, whatever their payloads, have the same hash, which is computed
  from the two endpoints only; they are not equal, since equality of edges is identity
  of objects, and a set holds both.
\<close>

theorem hash_pelas_pontas_igualdade_por_identidade:
  assumes "inserir_aresta s u v p = (Inr a, s')" "t = foldl executar s' cs"
    "inserir_aresta t u v q = (Inr b, t')"
  shows "\<exists>A B. aresta_em t' a = Some A \<and> aresta_em t' b = Some B \<and>
           peso A = p \<and> peso B = q \<and>
           Aresta_vertices A = (u, v) \<and> Aresta_vertices B = (u, v) \<and>
           Aresta_hash hi ht A = Aresta_hash hi ht B \<and>
           hash_em hi ht t' a = hash_em hi ht t' b \<and>
           \<not> Aresta_eq a b \<and>
           set_add (hash_em hi ht t') b [a] = [a, b]"
proof -
  from assms(1) have a: "a = prox s" and s': "s' = snd (inserir_aresta s u v p)"
    using inserir_aresta_ref [of s u v p a] by simp_all
  from assms(3) have b: "b = prox t" and t': "t' = snd (inserir_aresta t u v q)"
    using inserir_aresta_ref [of t u v q b] by simp_all
  have As': "aresta_em s' a = Some (Aresta_init u v p)" and ps': "a < prox s'"
    by (simp_all add: a s' inserir_aresta_frame)
  have "prox s' \<le> prox t" unfolding assms(2) by (rule prox_foldl)
  with ps' have lt: "a < prox t" by simp
  have "aresta_em t a = Some (Aresta_init u v p)"
    unfolding assms(2) using As' ps' by (simp add: aresta_em_foldl)
  with lt have A: "aresta_em t' a = Some (Aresta_init u v p)"
    by (simp add: t' inserir_aresta_frame)
  have B: "aresta_em t' b = Some (Aresta_init u v q)"
    by (simp add: b t' inserir_aresta_frame)
  have ne: "a \<noteq> b" using lt b by simp
  have h: "Aresta_hash hi ht (Aresta_init u v p) = Aresta_hash hi ht (Aresta_init u v q)"
    by (simp add: Aresta_hash_def Aresta_init_def)
  have "set_add (hash_em hi ht t') b [a] = [a, b]"
    using ne by (simp add: set_add_eq)
  moreover have "peso (Aresta_init u v p) = p" "peso (Aresta_init u v q) = q"
    "Aresta_vertices (Aresta_init u v p) = (u, v)" "Aresta_vertices (Aresta_init u v q) = (u, v)"
    by (simp_all add: peso_def Aresta_vertices_def Aresta_init_def)
  ultimately show ?thesis
    using A B h ne by (simp add: hash_em_def Aresta_eq_def)
qed

theorem hash_pelas_pontas_igualdade_por_identidade_witness:
  "fst (inserir_aresta (grafo_ab True) 2 3 ''p'') = Inr 5 \<and>
   fst (inserir_aresta (foldl executar (snd (inserir_aresta (grafo_ab True) 2 3 ''p'')) [InserirVertice ''d''])
          2 3 ''q'') = Inr 7 \<and>
   (\<exists>t'. t' = snd (inserir_aresta
                (foldl executar (snd (inserir_aresta (grafo_ab True) 2 3 ''p'')) [InserirVertice ''d''])
                2 3 ''q'') \<and>
      hash_em int sum_list t' 5 = hash_em int sum_list t' 7 \<and> \<not> Aresta_eq 5 7 \<and>
      set_add (hash_em int sum_list t') 7 [5] = [5, 7])"
proof -
  let ?s' = "snd (inserir_aresta (grafo_ab True) 2 3 ''p'')"
  let ?t = "foldl executar ?s' [InserirVertice ''d'']"
  let ?t' = "snd (inserir_aresta ?t 2 3 ''q'')"
  have f1: "fst (inserir_aresta (grafo_ab True) 2 3 ''p'') = Inr 5"
    by (simp add: grafo_ab_def avaliar)
  have f2: "fst (inserir_aresta ?t 2 3 ''q'') = Inr 7"
    by (simp add: grafo_ab_def avaliar)
  have h1: "inserir_aresta (grafo_ab True) 2 3 ''p'' = (Inr 5, ?s')"
    using f1 by (simp add: prod_eq_iff)
  have h3: "inserir_aresta ?t 2 3 ''q'' = (Inr 7, ?t')"
    using f2 by (simp add: prod_eq_iff)
  from hash_pelas_pontas_igualdade_por_identidade [OF h1 refl h3, of int sum_list]
  have "hash_em int sum_list ?t' 5 = hash_em int sum_list ?t' 7 \<and> \<not> Aresta_eq 5 7 \<and>
        set_add (hash_em int sum_list ?t') 7 [5] = [5, 7]"
    by blast
  with f1 f2 show ?thesis by blast
qed

text \<open>C4 as stated fails: two insertions from \<open>a\<close> to \<open>b\<close> give two edges with equal
  hashes that do not compare equal, and a set that holds one of them takes the other as
  a new element.\<close>

theorem arestas_mesmas_pontas_counterexample:
  "fst (inserir_aresta (grafo_ab True) 2 3 ''p'') = Inr 5 \<and>
   fst (inserir_aresta (snd (inserir_aresta (grafo_ab True) 2 3 ''p'')) 2 3 ''q'') = Inr 6 \<and>
   hash_em int sum_list (snd (inserir_aresta (snd (inserir_aresta (grafo_ab True) 2 3 ''p'')) 2 3 ''q'')) 5 =
   hash_em int sum_list (snd (inserir_aresta (snd (inserir_aresta (grafo_ab True) 2 3 ''p'')) 2 3 ''q'')) 6 \<and>
   \<not> Aresta_eq 5 6 \<and>
   set_add (hash_em int sum_list (snd (inserir_aresta (snd (inserir_aresta (grafo_ab True) 2 3 ''p'')) 2 3 ''q'')))
     6 [5] = [5, 6]"
  by (simp add: grafo_ab_def avaliar Aresta_hash_def Vertice_hash_def)

subsection \<open>Inserting the same pair twice\<close>

text \<open>
  C5. On two vertices \<open>u\<close> and \<open>v\<close> of a graph, directed or not, \<open>inserir_aresta u v p1\<close>
  followed by \<open>inserir_aresta u v p2\<close> raises nothing; afterwards \<open>aresta u v\<close> returns
  the second edge, whose payload is \<open>p2\<close>, and the first edge is no longer among the
  edges of the graph.
\<close>

theorem inserir_duas_vezes:
  assumes "s = construido d cs" "u \<in> set (vertices s)" "v \<in> set (vertices s)"
  shows "\<exists>a1 s1 a2 s2 A.
           inserir_aresta s u v p1 = (Inr a1, s1) \<and> inserir_aresta s1 u v p2 = (Inr a2, s2) \<and>
           aresta s2 u v = Inr (Some a2) \<and> a2 \<noteq> a1 \<and>
           aresta_em s2 a2 = Some A \<and> peso A = p2 \<and> Aresta_vertices A = (u, v) \<and>
           a2 \<in> set (arestas hi ht s2) \<and> a1 \<notin> set (arestas hi ht s2)"
proof -
  let ?ms = "mapa_em s (g_saida s)"
  let ?s1 = "snd (inserir_aresta s u v p1)"
  let ?s2 = "snd (inserir_aresta ?s1 u v p2)"
  have base: "inv_base s" by (simp add: assms(1) inv_base_construido)
  have base2: "inv_base ?s2" using base by (intro inv_base_inserir_aresta)
  from assms(2,3) have ku: "map_of ?ms u \<noteq> None" and kv: "map_of ?ms v \<noteq> None"
    by (simp_all add: vertices_iff)
  have ev: "map_of (mapa_em s (g_entrada s)) v \<noteq> None"
    using kv by (simp add: chaves_entrada [OF base])
  have ok1: "fst (inserir_aresta s u v p1) = Inr (prox s)"
    using ku ev by (rule inserir_aresta_sucesso)
  have fr1: "g_saida ?s1 = g_saida s" "g_entrada ?s1 = g_entrada s" "prox ?s1 = Suc (prox s)"
    by (simp_all add: inserir_aresta_frame)
  have dir1: "e_direcionado ?s1 = e_direcionado s" by (simp add: e_direcionado_def fr1)
  have ku1: "map_of (mapa_em ?s1 (g_saida ?s1)) u \<noteq> None"
    using ku by (simp add: fr1 inserir_aresta_chaves)
  have ev1: "map_of (mapa_em ?s1 (g_entrada ?s1)) v \<noteq> None"
    using ev by (simp add: fr1 inserir_aresta_chaves)
  have ok2: "fst (inserir_aresta ?s1 u v p2) = Inr (prox ?s1)"
    using ku1 ev1 by (rule inserir_aresta_sucesso)
  have fr2: "g_saida ?s2 = g_saida s"
    by (simp add: inserir_aresta_frame fr1)
  have cel1: "\<And>u' v'. celula (mapa_em ?s1 (g_saida s)) u' v' =
               (if (u' = u \<and> v' = v) \<or> (\<not> e_direcionado s \<and> u' = v \<and> v' = u) then Some (prox s)
                else celula ?ms u' v')"
    using inserir_aresta_celula_saida [OF ok1] by simp
  have cel2: "\<And>u' v'. celula (mapa_em ?s2 (g_saida s)) u' v' =
               (if (u' = u \<and> v' = v) \<or> (\<not> e_direcionado s \<and> u' = v \<and> v' = u) then Some (Suc (prox s))
                else celula (mapa_em ?s1 (g_saida s)) u' v')"
    using inserir_aresta_celula_saida [OF ok2] by (simp add: fr1 dir1)
  have "map_of (mapa_em ?s2 (g_saida ?s1)) u = None \<longleftrightarrow> map_of (mapa_em ?s1 (g_saida ?s1)) u = None"
    by (rule inserir_aresta_chaves(1))
  then have ku2: "map_of (mapa_em ?s2 (g_saida ?s2)) u \<noteq> None"
    using ku1 by (simp add: fr1 fr2)
  have c2: "celula (mapa_em ?s2 (g_saida ?s2)) u v = Some (Suc (prox s))"
    by (simp add: fr2 cel2)
  have a: "aresta ?s2 u v = Inr (Some (Suc (prox s)))"
    using aresta_celula [OF ku2, of v] c2 by simp
  have A: "aresta_em ?s2 (Suc (prox s)) = Some (Aresta_init u v p2)"
    by (simp add: inserir_aresta_frame)
  have fresh: "\<And>u' v'. celula ?ms u' v' \<noteq> Some (prox s)"
    using base by (rule celula_fresca)
  have "\<And>u' v'. celula (mapa_em ?s2 (g_saida ?s2)) u' v' \<noteq> Some (prox s)"
    using fresh by (simp add: fr2 cel2 cel1)
  with base2 have gone: "prox s \<notin> set (arestas hi ht ?s2)"
    by (rule nao_guardada)
  have "chaves_distintas (mapa_em ?s2 (g_saida ?s2))" using base2 by (simp add: inv_base_def)
  then have here: "Suc (prox s) \<in> set (arestas hi ht ?s2)"
    using c2 by (auto simp: arestas_set guardadas_celula)
  have e1: "inserir_aresta s u v p1 = (Inr (prox s), ?s1)"
    using ok1 by (simp add: prod_eq_iff)
  have e2: "inserir_aresta ?s1 u v p2 = (Inr (Suc (prox s)), ?s2)"
    using ok2 by (simp add: prod_eq_iff fr1)
  have "peso (Aresta_init u v p2) = p2" "Aresta_vertices (Aresta_init u v p2) = (u, v)"
    by (simp_all add: peso_def Aresta_vertices_def Aresta_init_def)
  with e1 e2 a A gone here show ?thesis
    by (intro exI [of _ "prox s"] exI [of _ ?s1] exI [of _ "Suc (prox s)"] exI [of _ ?s2]
          exI [of _ "Aresta_init u v p2"]) simp
qed

theorem inserir_duas_vezes_witness:
  "2 \<in> set (vertices (grafo_ab True)) \<and> 3 \<in> set (vertices (grafo_ab True)) \<and>
   (\<exists>a1 s1 a2 s2 A.
      inserir_aresta (grafo_ab True) 2 3 ''p'' = (Inr a1, s1) \<and>
      inserir_aresta s1 2 3 ''q'' = (Inr a2, s2) \<and>
      aresta s2 2 3 = Inr (Some a2) \<and> aresta_em s2 a2 = Some A \<and> peso A = ''q'' \<and>
      a1 \<notin> set (arestas int sum_list s2))"
proof -
  have h1: "grafo_ab True = construido True [InserirVertice ''a'', InserirVertice ''b'', CriarVertice ''c'']"
    by (simp add: grafo_ab_def)
  have h2: "2 \<in> set (vertices (grafo_ab True))" and h3: "3 \<in> set (vertices (grafo_ab True))"
    by (simp_all add: grafo_ab_def avaliar)
  from inserir_duas_vezes [OF h1 h2 h3, of "''p''" "''q''" int sum_list] h2 h3
  show ?thesis by blast
qed

subsection \<open>The edge helper\<close>

text \<open>
  C6. An edge returned by \<open>inserir_aresta s orig dest p\<close> has the endpoints and the payload
  it was given; \<open>oposto\<close> at the origin gives the destination, at the destination the
  origin, and at every vertex other than the origin (also one that is no endpoint)
  the origin.
\<close>

theorem oposto_aresta_inserida:
  assumes "inserir_aresta s orig dest p = (Inr a, s')"
  shows "\<exists>A. aresta_em s' a = Some A \<and> Aresta_vertices A = (orig, dest) \<and> peso A = p \<and>
             oposto A orig = dest \<and> oposto A dest = orig \<and>
             (\<forall>v. v \<noteq> orig \<longrightarrow> oposto A v = orig)"
proof -
  from assms have a: "a = prox s"
    using inserir_aresta_ref [of s orig dest p a] by simp
  from assms have "aresta_em s' = (aresta_em s)(prox s \<mapsto> Aresta_init orig dest p)"
    using inserir_aresta_frame(5) [of s orig dest p] by simp
  with a have "aresta_em s' a = Some (Aresta_init orig dest p)"
    by simp
  then show ?thesis
    by (simp add: Aresta_init_def Aresta_vertices_def peso_def oposto_def)
qed

theorem oposto_aresta_inserida_witness:
  "fst (inserir_aresta (grafo_ab False) 1 2 ''p'') = Inr 4 \<and>
   (\<exists>A. aresta_em (snd (inserir_aresta (grafo_ab False) 1 2 ''p'')) 4 = Some A \<and>
        oposto A 1 = 2 \<and> oposto A 2 = 1 \<and> oposto A 3 = 1)"
proof -
  have f: "fst (inserir_aresta (grafo_ab False) 1 2 ''p'') = Inr 4"
    by (simp add: grafo_ab_def avaliar)
  then have h: "inserir_aresta (grafo_ab False) 1 2 ''p'' =
                  (Inr 4, snd (inserir_aresta (grafo_ab False) 1 2 ''p''))"
    by (simp add: prod_eq_iff)
  from oposto_aresta_inserida [OF h] obtain A
    where A: "aresta_em (snd (inserir_aresta (grafo_ab False) 1 2 ''p'')) 4 = Some A"
      "oposto A 1 = 2" "oposto A 2 = 1" "\<forall>v. v \<noteq> 1 \<longrightarrow> oposto A v = 1"
    by blast
  from A(4) have "oposto A 3 = 1"
    by simp
  with f A(1-3) show ?thesis
    by blast
qed

subsection \<open>Looking an edge up\<close>

text \<open>
  C7. In a graph built by calls, \<open>aresta u v\<close> raises \<open>KeyError\<close> when \<open>u\<close> is not a vertex
  of the graph, and returns \<open>None\<close> when \<open>u\<close> is a vertex and none of the edges incident to
  \<open>u\<close> on the outgoing side has \<open>v\<close> as its opposite endpoint.
\<close>

theorem aresta_ausente_ou_KeyError:
  assumes "s = construido d cs"
  shows "(u \<notin> set (vertices s) \<longrightarrow> aresta s u v = Inl KeyError) \<and>
         (u \<in> set (vertices s) \<and>
          (\<forall>es a A. arestas_incidentes s u True = Inr es \<and> a \<in> set es \<and> aresta_em s a = Some A
             \<longrightarrow> oposto A u \<noteq> v)
          \<longrightarrow> aresta s u v = Inr None)"
proof (intro conjI impI)
  assume "u \<notin> set (vertices s)"
  then show "aresta s u v = Inl KeyError"
    by (simp add: vertices_iff aresta_KeyError)
next
  let ?ms = "mapa_em s (g_saida s)"
  assume h: "u \<in> set (vertices s) \<and>
          (\<forall>es a A. arestas_incidentes s u True = Inr es \<and> a \<in> set es \<and> aresta_em s a = Some A
             \<longrightarrow> oposto A u \<noteq> v)"
  then have ku: "map_of ?ms u \<noteq> None" by (simp add: vertices_iff)
  then obtain du where du: "map_of ?ms u = Some du" by auto
  have inc: "arestas_incidentes s u True = Inr (map snd du)"
    using du by (rule arestas_incidentes_saida)
  have op: "inv_oposto s" by (simp add: assms inv_oposto_construido)
  have "celula ?ms u v = None"
  proof (rule ccontr)
    assume "celula ?ms u v \<noteq> None"
    then obtain a where a: "celula ?ms u v = Some a" by auto
    with op obtain A where A: "aresta_em s a = Some A" "oposto A u = v"
      unfolding inv_oposto_def by blast
    from a du have "map_of du v = Some a" by (simp add: celula_def)
    then have "(v, a) \<in> set du" by (rule map_of_SomeD)
    then have "a \<in> set (map snd du)" by force
    with h inc A show False by blast
  qed
  then show "aresta s u v = Inr None"
    using aresta_celula [OF ku, of v] by simp
qed

theorem aresta_ausente_ou_KeyError_witness:
  "5 \<notin> set (vertices grafo_seta) \<and> aresta grafo_seta 5 2 = Inl KeyError \<and>
   2 \<in> set (vertices grafo_seta) \<and> 4 \<in> set (vertices grafo_seta) \<and>
   arestas_incidentes grafo_seta 2 True = Inr [6] \<and> aresta grafo_seta 2 4 = Inr None"
proof -
  have h: "grafo_seta = construido True [InserirVertice ''a'', InserirVertice ''b'',
             InserirVertice ''c'', CriarVertice ''d'', InserirAresta 2 3 ''p'']"
    by (simp add: grafo_seta_def)
  have v: "5 \<notin> set (vertices grafo_seta)" "2 \<in> set (vertices grafo_seta)"
    "4 \<in> set (vertices grafo_seta)"
    by (simp_all add: grafo_seta_def avaliar)
  have i: "arestas_incidentes grafo_seta 2 True = Inr [6]"
    by (simp add: grafo_seta_def avaliar)
  have a: "aresta_em grafo_seta 6 = Some (Aresta_init 2 3 ''p'')"
    by (simp add: grafo_seta_def avaliar)
  have o: "oposto (Aresta_init 2 3 ''p'') 2 \<noteq> 4"
    by (simp add: oposto_def Aresta_init_def)
  have n: "\<forall>es a A. arestas_incidentes grafo_seta 2 True = Inr es \<and> a \<in> set es \<and>
             aresta_em grafo_seta a = Some A \<longrightarrow> oposto A 2 \<noteq> 4"
    using i a o by auto
  from aresta_ausente_ou_KeyError [OF h, of 5 2] v(1)
  have "aresta grafo_seta 5 2 = Inl KeyError" by blast
  moreover from aresta_ausente_ou_KeyError [OF h, of 2 4] v(2) n
  have "aresta grafo_seta 2 4 = Inr None" by blast
  ultimately show ?thesis using v i by blast
qed

subsection \<open>Direction\<close>

text \<open>
  C8. \<open>e_direcionado\<close> is the argument the graph was constructed with, it holds exactly
  when the two attributes refer to distinct dicts, and no call of \<open>inserir_vertice\<close> or
  \<open>inserir_aresta\<close> (raising or not), nor any sequence of calls, changes it.
\<close>

theorem e_direcionado_estavel:
  "e_direcionado (Grafo_init d :: ('a, 'b) Grafo) = d \<and>
   (e_direcionado s \<longleftrightarrow> g_entrada s \<noteq> g_saida s) \<and>
   e_direcionado (snd (inserir_vertice s x)) = e_direcionado s \<and>
   e_direcionado (snd (inserir_aresta s u v p)) = e_direcionado s \<and>
   e_direcionado (construido d cs :: ('a, 'b) Grafo) = d"
  by (simp add: e_direcionado_init construido_def e_direcionado_foldl)
     (simp add: e_direcionado_def inserir_aresta_frame inserir_vertice_frame)

subsection \<open>The example of the module\<close>

text \<open>
  C9. In the graph the script builds, no call raises, \<open>num_vertices\<close> is 6, \<open>num_arestas\<close>
  is 4, the degree of \<open>a\<close> is 2 and the degree of \<open>e\<close> is 0.
\<close>

theorem grafo_exemplo_contagens:
  "(case grafo_exemplo :: (string, 'b option) Grafo \<times> _ of
      (g, (v1, v2, v3, v4, v5, v6), rs) \<Rightarrow>
        map isl rs = [False, False, False, False] \<and> num_vertices g = 6 \<and> num_arestas g = 4 \<and>
        grau g v1 True = Inr 2 \<and> grau g v5 True = Inr 0)"
  by (simp add: grafo_exemplo_def avaliar)

subsection \<open>A failing insertion\<close>

text \<open>
  C10 (as amended). In a directed graph, \<open>inserir_aresta u v x\<close> with \<open>u\<close> a vertex of the
  graph and \<open>v\<close> not raises \<open>KeyError\<close> after the new edge has been stored under \<open>u\<close> and
  \<open>v\<close> in \<open>_saida\<close>; \<open>num_arestas\<close> and the outgoing degree of \<open>u\<close> grow by one when no
  edge was stored there before, and stay as they were when one was.
\<close>

theorem inserir_aresta_nao_atomica:
  assumes "s = construido True cs" "u \<in> set (vertices s)" "v \<notin> set (vertices s)"
  shows "\<exists>s' n.
           inserir_aresta s u v x = (Inl KeyError, s') \<and>
           aresta s' u v = Inr (Some (prox s)) \<and>
           aresta_em s' (prox s) = Some (Aresta_init u v x) \<and>
           grau s u True = Inr n \<and>
           (aresta s u v = Inr None \<longrightarrow>
              num_arestas s' = Suc (num_arestas s) \<and> grau s' u True = Inr (Suc n)) \<and>
           (aresta s u v \<noteq> Inr None \<longrightarrow>
              num_arestas s' = num_arestas s \<and> grau s' u True = Inr n)"
proof -
  let ?ms = "mapa_em s (g_saida s)" and ?me = "mapa_em s (g_entrada s)"
  let ?s' = "snd (inserir_aresta s u v x)"
  let ?ms' = "mapa_em ?s' (g_saida s)"
  have base: "inv_base s" by (simp add: assms(1) inv_base_construido)
  have dir: "e_direcionado s" by (simp add: assms(1) e_direcionado_construido)
  from assms(2,3) have ku: "map_of ?ms u \<noteq> None" and kv: "map_of ?ms v = None"
    by (simp_all add: vertices_iff)
  have ev: "map_of ?me v = None" using kv by (simp add: chaves_entrada [OF base])
  have fail: "fst (inserir_aresta s u v x) = Inl KeyError"
    using ev by (intro inserir_aresta_falha) simp
  have base': "inv_base ?s'" using base by (rule inv_base_inserir_aresta)
  have fr: "g_saida ?s' = g_saida s" "e_direcionado ?s'"
    using dir by (simp_all add: inserir_aresta_frame e_direcionado_def)
  have ku': "map_of ?ms' u \<noteq> None" using ku by (simp add: inserir_aresta_chaves)
  have cs: "\<And>u' v'. celula ?ms' u' v' =
              (if u' = u \<and> v' = v then Some (prox s) else celula ?ms u' v')"
    using dir ku by (auto simp: inserir_aresta_celula_geral)
  have a': "aresta ?s' u v = Inr (Some (prox s))"
    using aresta_celula [of ?s' u v] ku' by (simp add: fr cs)
  have A: "aresta_em ?s' (prox s) = Some (Aresta_init u v x)"
    by (simp add: inserir_aresta_frame)
  have a0: "aresta s u v = Inr (celula ?ms u v)" using ku by (rule aresta_celula)
  let ?Nu = "{w. celula ?ms u w \<noteq> None}"
  let ?C = "{p. celula ?ms (fst p) (snd p) \<noteq> None}"
  have g: "grau s u True = Inr (card ?Nu)" using base ku by (rule grau_saida)
  have Nu': "{w. celula ?ms' u w \<noteq> None} = insert v ?Nu" by (auto simp: cs)
  have "grau ?s' u True = Inr (card {w. celula ?ms' u w \<noteq> None})"
    using grau_saida [OF base', of u] ku' by (simp add: fr)
  then have g': "grau ?s' u True = Inr (card (insert v ?Nu))"
    unfolding Nu' .
  have n: "num_arestas s = card ?C" using base dir by (rule num_arestas_card)
  have C': "{p. celula ?ms' (fst p) (snd p) \<noteq> None} = insert (u, v) ?C"
    by (auto simp: cs)
  have "num_arestas ?s' = card {p. celula ?ms' (fst p) (snd p) \<noteq> None}"
    using num_arestas_card [OF base' fr(2)] by (simp add: fr)
  then have n': "num_arestas ?s' = card (insert (u, v) ?C)"
    unfolding C' .
  have novo: "num_arestas ?s' = Suc (num_arestas s) \<and> grau ?s' u True = Inr (Suc (card ?Nu))"
    if "aresta s u v = Inr None"
  proof -
    from that a0 have c: "celula ?ms u v = None" by simp
    then have "(u, v) \<notin> ?C" by simp
    then have "card (insert (u, v) ?C) = Suc (card ?C)"
      using finite_celulas [of ?ms] by simp
    then show ?thesis using card_vizinhos_novo [OF c] by (simp add: n n' g')
  qed
  have velho: "num_arestas ?s' = num_arestas s \<and> grau ?s' u True = Inr (card ?Nu)"
    if "aresta s u v \<noteq> Inr None"
  proof -
    from that a0 have c: "celula ?ms u v \<noteq> None" by simp
    then have "insert (u, v) ?C = ?C" "insert v ?Nu = ?Nu" by auto
    then show ?thesis by (simp add: n n' g')
  qed
  have "inserir_aresta s u v x = (Inl KeyError, ?s')"
    using fail by (simp add: prod_eq_iff)
  with a' A g novo velho show ?thesis by blast
qed

theorem inserir_aresta_nao_atomica_witness:
  "2 \<in> set (vertices (grafo_ab True)) \<and> 4 \<notin> set (vertices (grafo_ab True)) \<and>
   aresta (grafo_ab True) 2 4 = Inr None \<and> num_arestas (grafo_ab True) = 0 \<and>
   grau (grafo_ab True) 2 True = Inr 0 \<and>
   (\<exists>s'. inserir_aresta (grafo_ab True) 2 4 ''p'' = (Inl KeyError, s') \<and>
      aresta s' 2 4 = Inr (Some 5) \<and> num_arestas s' = 1 \<and> grau s' 2 True = Inr 1) \<and>
   aresta grafo_falha 2 4 = Inr (Some 5) \<and> num_arestas grafo_falha = 1 \<and>
   grau grafo_falha 2 True = Inr 1 \<and>
   (\<exists>s'. inserir_aresta grafo_falha 2 4 ''q'' = (Inl KeyError, s') \<and>
      aresta s' 2 4 = Inr (Some 6) \<and> num_arestas s' = 1 \<and> grau s' 2 True = Inr 1)"
proof -
  have h1: "grafo_ab True = construido True [InserirVertice ''a'', InserirVertice ''b'', CriarVertice ''c'']"
    by (simp add: grafo_ab_def)
  have h2: "2 \<in> set (vertices (grafo_ab True))" and h3: "4 \<notin> set (vertices (grafo_ab True))"
    by (simp_all add: grafo_ab_def avaliar)
  have e: "aresta (grafo_ab True) 2 4 = Inr None" "num_arestas (grafo_ab True) = 0"
    "grau (grafo_ab True) 2 True = Inr 0" "prox (grafo_ab True) = 5"
    by (simp_all add: grafo_ab_def avaliar)
  from inserir_aresta_nao_atomica [OF h1 h2 h3, of "''p''"] obtain s' n where
    r: "inserir_aresta (grafo_ab True) 2 4 ''p'' = (Inl KeyError, s')"
      "aresta s' 2 4 = Inr (Some (prox (grafo_ab True)))"
      "grau (grafo_ab True) 2 True = Inr n"
      "aresta (grafo_ab True) 2 4 = Inr None \<longrightarrow>
         num_arestas s' = Suc (num_arestas (grafo_ab True)) \<and> grau s' 2 True = Inr (Suc n)"
    by blast
  from r(3) e(3) have "n = 0" by simp
  with r(2,4) e have "aresta s' 2 4 = Inr (Some 5)" "num_arestas s' = 1" "grau s' 2 True = Inr 1"
    by simp_all
  with r(1) have first: "\<exists>s'. inserir_aresta (grafo_ab True) 2 4 ''p'' = (Inl KeyError, s') \<and>
      aresta s' 2 4 = Inr (Some 5) \<and> num_arestas s' = 1 \<and> grau s' 2 True = Inr 1"
    by blast
  have k1: "grafo_falha = construido True [InserirVertice ''a'', InserirVertice ''b'',
              CriarVertice ''c'', InserirAresta 2 4 ''p'']"
    by (simp add: grafo_falha_def)
  have k2: "2 \<in> set (vertices grafo_falha)" and k3: "4 \<notin> set (vertices grafo_falha)"
    by (simp_all add: grafo_falha_def avaliar)
  have f: "aresta grafo_falha 2 4 = Inr (Some 5)" "num_arestas grafo_falha = 1"
    "grau grafo_falha 2 True = Inr 1" "prox grafo_falha = 6"
    by (simp_all add: grafo_falha_def avaliar)
  from inserir_aresta_nao_atomica [OF k1 k2 k3, of "''q''"] obtain t' m where
    q: "inserir_aresta grafo_falha 2 4 ''q'' = (Inl KeyError, t')"
      "aresta t' 2 4 = Inr (Some (prox grafo_falha))"
      "grau grafo_falha 2 True = Inr m"
      "aresta grafo_falha 2 4 \<noteq> Inr None \<longrightarrow>
         num_arestas t' = num_arestas grafo_falha \<and> grau t' 2 True = Inr m"
    by blast
  from q(3) f(3) have "m = 1" by simp
  with q(2,4) f have "aresta t' 2 4 = Inr (Some 6)" "num_arestas t' = 1" "grau t' 2 True = Inr 1"
    by simp_all
  with q(1) have second: "\<exists>s'. inserir_aresta grafo_falha 2 4 ''q'' = (Inl KeyError, s') \<and>
      aresta s' 2 4 = Inr (Some 6) \<and> num_arestas s' = 1 \<and> grau s' 2 True = Inr 1"
    by blast
  from first second h2 h3 e(1-3) f(1-3) show ?thesis by blast
qed

text \<open>C10 as stated fails when the failing call is repeated: the edge left by the first
  call is replaced and both counts stay 1.\<close>

theorem falha_repetida_counterexample:
  "e_direcionado (snd (inserir_aresta (grafo_ab True) 2 4 ''p'')) \<and>
   vertices (snd (inserir_aresta (grafo_ab True) 2 4 ''p'')) = [2, 3] \<and>
   num_arestas (snd (inserir_aresta (grafo_ab True) 2 4 ''p'')) = 1 \<and>
   grau (snd (inserir_aresta (grafo_ab True) 2 4 ''p'')) 2 True = Inr 1 \<and>
   fst (inserir_aresta (snd (inserir_aresta (grafo_ab True) 2 4 ''p'')) 2 4 ''q'') = Inl KeyError \<and>
   num_arestas (snd (inserir_aresta (snd (inserir_aresta (grafo_ab True) 2 4 ''p'')) 2 4 ''q'')) = 1 \<and>
   grau (snd (inserir_aresta (snd (inserir_aresta (grafo_ab True) 2 4 ''p'')) 2 4 ''q'')) 2 True = Inr 1"
  by (simp add: grafo_ab_def avaliar)

end
